theory Spec2Isabelle
  imports Complex_Main
begin

section \<open>JavaScript values used by the wide-sheet pipeline of app.js\<close>

text \<open>
  The pipeline of \<^verbatim>\<open>src/app.js\<close> (\<^verbatim>\<open>cleanNumber\<close> and
  \<^verbatim>\<open>processData\<close>) works on text cells and on JavaScript numbers.

  \<^item> A JavaScript string is the list of its UTF-16 code units (\<open>jsstring\<close>); the Thai
    keywords of the header test are all in the basic plane, one code unit per letter.
  \<^item> A JavaScript number is \<open>NaN\<close>, one of the two infinities, or a finite double. A finite
    double is modelled by the rational number it is (\<open>Fin q\<close>); every operation that
    rounds in the source rounds in the model, to the nearest double with ties to even,
    overflowing to an infinity (\<open>round_double\<close>). \<open>-0\<close> is identified with \<open>0\<close> (the
    code never tells them apart).
\<close>

type_synonym jsstring = "nat list"

datatype jsnum = NaN | Fin rat | PInf | NInf

datatype jsval = Undefined | Str jsstring | Number jsnum

definition ascii :: "string \<Rightarrow> jsstring" where
  "ascii s = map of_char s"

subsection \<open>Rounding to a double\<close>

text \<open>
  IEEE 754 binary64, round to nearest, ties to even. A positive rational \<open>a\<close> with
  \<open>2 ^ l \<le> a < 2 ^ (l + 1)\<close> is rounded to a multiple of \<open>2 ^ e\<close>, where
  \<open>e = l - 52\<close> (53 significant bits) and at least \<open>-1074\<close> (the subnormal range); a
  result of \<open>2 ^ 1024\<close> or more is an infinity.
\<close>

definition pow2 :: "int \<Rightarrow> rat" where
  "pow2 e = (if 0 \<le> e then 2 ^ nat e else 1 / 2 ^ nat (- e))"

text \<open>The number of binary digits of a natural number.\<close>

fun bitlen :: "nat \<Rightarrow> nat" where
  "bitlen n = (if n = 0 then 0 else Suc (bitlen (n div 2)))"

declare bitlen.simps [simp del]

text \<open>The integer \<open>l\<close> with \<open>2 ^ l \<le> a < 2 ^ (l + 1)\<close>, for positive \<open>a\<close>.\<close>

definition floor_log2 :: "rat \<Rightarrow> int" where
  "floor_log2 a =
     (if 1 \<le> a then int (bitlen (nat \<lfloor>a\<rfloor>)) - 1
      else - int (bitlen (nat (\<lceil>1 / a\<rceil> - 1))))"

definition round_half_even :: "rat \<Rightarrow> int" where
  "round_half_even x =
     (let f = \<lfloor>x\<rfloor>; r = x - of_int f
      in if r < 1 / 2 then f else if 1 / 2 < r then f + 1 else if even f then f else f + 1)"

definition round_double :: "rat \<Rightarrow> jsnum" where
  "round_double q =
     (if q = 0 then Fin 0
      else
        let a = \<bar>q\<bar>;
            e = max (floor_log2 a - 52) (- 1074);
            m = round_half_even (a / pow2 e);
            v = of_int m * pow2 e
        in if 2 ^ 1024 \<le> v then (if 0 < q then PInf else NInf)
           else Fin (if 0 < q then v else - v))"

subsection \<open>Arithmetic and comparison of numbers\<close>

fun js_neg :: "jsnum \<Rightarrow> jsnum" where
  "js_neg NaN = NaN"
| "js_neg (Fin a) = Fin (- a)"
| "js_neg PInf = NInf"
| "js_neg NInf = PInf"

text \<open>\<^verbatim>\<open>a + b\<close> on numbers: the exact sum, rounded.\<close>

fun js_add :: "jsnum \<Rightarrow> jsnum \<Rightarrow> jsnum" where
  "js_add NaN b = NaN"
| "js_add a NaN = NaN"
| "js_add (Fin a) (Fin b) = round_double (a + b)"
| "js_add (Fin a) PInf = PInf"
| "js_add (Fin a) NInf = NInf"
| "js_add PInf (Fin b) = PInf"
| "js_add NInf (Fin b) = NInf"
| "js_add PInf PInf = PInf"
| "js_add NInf NInf = NInf"
| "js_add PInf NInf = NaN"
| "js_add NInf PInf = NaN"

text \<open>\<^verbatim>\<open>a - b\<close> on numbers.\<close>

definition js_sub :: "jsnum \<Rightarrow> jsnum \<Rightarrow> jsnum" where
  "js_sub a b = js_add a (js_neg b)"

text \<open>\<^verbatim>\<open>Math.abs\<close>.\<close>

fun js_abs :: "jsnum \<Rightarrow> jsnum" where
  "js_abs NaN = NaN"
| "js_abs (Fin a) = Fin \<bar>a\<bar>"
| "js_abs PInf = PInf"
| "js_abs NInf = PInf"

text \<open>\<^verbatim>\<open>a < b\<close>: false as soon as one side is \<open>NaN\<close>.\<close>

fun js_lt :: "jsnum \<Rightarrow> jsnum \<Rightarrow> bool" where
  "js_lt NaN b = False"
| "js_lt a NaN = False"
| "js_lt (Fin a) (Fin b) = (a < b)"
| "js_lt (Fin a) PInf = True"
| "js_lt (Fin a) NInf = False"
| "js_lt PInf b = False"
| "js_lt NInf (Fin b) = True"
| "js_lt NInf PInf = True"
| "js_lt NInf NInf = False"

text \<open>\<^verbatim>\<open>a > b\<close>.\<close>

definition js_gt :: "jsnum \<Rightarrow> jsnum \<Rightarrow> bool" where
  "js_gt a b = js_lt b a"

text \<open>\<^verbatim>\<open>Math.max(a, b)\<close>: \<open>NaN\<close> as soon as one argument is.\<close>

definition js_max :: "jsnum \<Rightarrow> jsnum \<Rightarrow> jsnum" where
  "js_max a b = (if a = NaN \<or> b = NaN then NaN else if js_lt a b then b else a)"

text \<open>Truthiness of a number: \<open>0\<close> and \<open>NaN\<close> are falsy.\<close>

definition truthy :: "jsnum \<Rightarrow> bool" where
  "truthy n \<longleftrightarrow> n \<noteq> NaN \<and> n \<noteq> Fin 0"

text \<open>A number that is at least zero (so not \<open>NaN\<close>).\<close>

definition nonneg :: "jsnum \<Rightarrow> bool" where
  "nonneg n \<longleftrightarrow> n = Fin 0 \<or> js_lt (Fin 0) n"

subsection \<open>Strings\<close>

text \<open>
  White space as \<^verbatim>\<open>String.prototype.trim\<close> and \<^verbatim>\<open>parseFloat\<close> see it: the
  WhiteSpace and LineTerminator code points of ECMAScript.
\<close>

definition is_ws :: "nat \<Rightarrow> bool" where
  "is_ws c \<longleftrightarrow> c \<in> {9, 10, 11, 12, 13, 32, 160, 5760, 8232, 8233, 8239, 8287, 12288, 65279}
     \<or> (8192 \<le> c \<and> c \<le> 8202)"

definition trim :: "jsstring \<Rightarrow> jsstring" where
  "trim s = rev (dropWhile is_ws (rev (dropWhile is_ws s)))"

text \<open>\<^verbatim>\<open>s.replace(/,/g, '')\<close>: the comma is code unit 44.\<close>

definition remove_commas :: "jsstring \<Rightarrow> jsstring" where
  "remove_commas s = filter (\<lambda>c. c \<noteq> 44) s"

text \<open>
  \<^verbatim>\<open>toLowerCase\<close> on the letters A to Z. On other code units JavaScript's mapping is
  not modelled; it neither produces nor consumes a letter of the keywords tested below
  (Thai has no case, and the only ASCII letters that a non-ASCII letter lowers to are
  \<^verbatim>\<open>i\<close> and \<^verbatim>\<open>k\<close>), so the header test is not affected.
\<close>

definition toLowerCase :: "jsstring \<Rightarrow> jsstring" where
  "toLowerCase s = map (\<lambda>c. if 65 \<le> c \<and> c \<le> 90 then c + 32 else c) s"

text \<open>\<^verbatim>\<open>h.includes(k)\<close>: \<open>k\<close> occurs in \<open>h\<close> as a contiguous block.\<close>

fun js_includes :: "jsstring \<Rightarrow> jsstring \<Rightarrow> bool" where
  "js_includes [] k = (k = [])"
| "js_includes (c # cs) k = (take (length k) (c # cs) = k \<or> js_includes cs k)"

subsection \<open>parseFloat\<close>

text \<open>
  \<^verbatim>\<open>parseFloat\<close> skips leading white space and reads the longest prefix that is a
  decimal literal: an optional sign, then \<^verbatim>\<open>Infinity\<close> or digits with an optional
  fraction and an optional exponent. No such prefix gives \<open>NaN\<close>. The result is the
  double nearest to the value of the literal (an engine may ignore digits after the
  twentieth significant one; the model does not).
\<close>

definition is_digit :: "nat \<Rightarrow> bool" where
  "is_digit c \<longleftrightarrow> 48 \<le> c \<and> c \<le> 57"

fun digits_val :: "nat \<Rightarrow> jsstring \<Rightarrow> nat" where
  "digits_val acc [] = acc"
| "digits_val acc (c # cs) = digits_val (10 * acc + (c - 48)) cs"

text \<open>The exponent part: \<^verbatim>\<open>e\<close> or \<^verbatim>\<open>E\<close>, an optional sign, at least one digit.\<close>

definition exponent_part :: "jsstring \<Rightarrow> int" where
  "exponent_part s =
     (case s of
        [] \<Rightarrow> 0
      | c # r \<Rightarrow>
          if c = 101 \<or> c = 69 then
            (case r of
               [] \<Rightarrow> 0
             | d # r' \<Rightarrow>
                 if d = 43 \<or> d = 45 then
                   (let ds = takeWhile is_digit r' in
                    if ds = [] then 0
                    else if d = 45 then - int (digits_val 0 ds) else int (digits_val 0 ds))
                 else
                   (let ds = takeWhile is_digit r in
                    if ds = [] then 0 else int (digits_val 0 ds)))
          else 0)"

definition scale10 :: "rat \<Rightarrow> int \<Rightarrow> rat" where
  "scale10 x e = (if 0 \<le> e then x * 10 ^ nat e else x / 10 ^ nat (- e))"

definition parse_unsigned :: "jsstring \<Rightarrow> jsnum" where
  "parse_unsigned s =
     (if take 8 s = ascii ''Infinity'' then PInf
      else
        let ip = takeWhile is_digit s;
            s3 = dropWhile is_digit s;
            fp = (case s3 of [] \<Rightarrow> [] | c # r \<Rightarrow> if c = 46 then takeWhile is_digit r else []);
            s4 = (case s3 of [] \<Rightarrow> [] | c # r \<Rightarrow> if c = 46 then dropWhile is_digit r else s3)
        in if ip = [] \<and> fp = [] then NaN
           else round_double (scale10 (of_nat (digits_val 0 (ip @ fp)) / 10 ^ length fp)
                                (exponent_part s4)))"

definition parseFloat :: "jsstring \<Rightarrow> jsnum" where
  "parseFloat s =
     (case dropWhile is_ws s of
        [] \<Rightarrow> NaN
      | c # r \<Rightarrow>
          if c = 45 then js_neg (parse_unsigned r)
          else if c = 43 then parse_unsigned r
          else parse_unsigned (c # r))"

section \<open>The cell normalizer\<close>

text \<open>
  \<^verbatim>\<open>
  function cleanNumber(val) {
      if (!val) return 0;
      if (typeof val === 'number') return val;
      const cleanStr = val.toString().replace(/,/g, '').trim();
      if (cleanStr === '' || cleanStr === '-') return 0;
      const num = parseFloat(cleanStr);
      return isNaN(num) ? 0 : num;
  }
  \<close>
  A cell is a string, a number, or \<^verbatim>\<open>undefined\<close> (a read past the end of a row).
\<close>

definition clean_str :: "jsstring \<Rightarrow> jsstring" where
  "clean_str s = trim (remove_commas s)"

fun cleanNumber :: "jsval \<Rightarrow> jsnum" where
  "cleanNumber Undefined = Fin 0"
| "cleanNumber (Number n) = (if \<not> truthy n then Fin 0 else n)"
| "cleanNumber (Str s) =
     (if s = [] then Fin 0
      else
        let cleanStr = clean_str s in
        if cleanStr = [] \<or> cleanStr = ascii ''-'' then Fin 0
        else
          let num = parseFloat cleanStr in
          if num = NaN then Fin 0 else num)"

section \<open>The day-block count\<close>

text \<open>
  \<^verbatim>\<open>
  let maxDays = Math.floor((totalCols - 8) / 8);
  if (maxDays > 31) maxDays = 31;
  if (maxDays < 1) maxDays = 1;
  \<close>
  \<open>totalCols\<close> is the length of the header row; the floor of the quotient is integer
  division, which rounds towards minus infinity in HOL as \<^verbatim>\<open>Math.floor\<close> does.
\<close>

definition maxDays :: "nat \<Rightarrow> int" where
  "maxDays totalCols =
     (let m0 = (int totalCols - 8) div 8;
          m1 = (if m0 > 31 then 31 else m0)
      in if m1 < 1 then 1 else m1)"

section \<open>The sheet and the emitted records\<close>

text \<open>
  The input of \<^verbatim>\<open>processData\<close> is the array of rows of the CSV parser: each row an
  array of text cells, row 0 the header. Reading a row past its end gives
  \<^verbatim>\<open>undefined\<close> (\<open>None\<close>).
\<close>

type_synonym row = "jsstring list"

definition cell :: "row \<Rightarrow> nat \<Rightarrow> jsstring option" where
  "cell r i = (if i < length r then Some (r ! i) else None)"

definition cell_val :: "row \<Rightarrow> nat \<Rightarrow> jsval" where
  "cell_val r i = (case cell r i of None \<Rightarrow> Undefined | Some s \<Rightarrow> Str s)"

text \<open>
  \<^verbatim>\<open>previousDayRemain\<close> is an object literal \<^verbatim>\<open>{}\<close> used as a dictionary from product
  codes to numbers. Reading \<^verbatim>\<open>previousDayRemain[code]\<close> gives the number written under
  the code, or \<^verbatim>\<open>undefined\<close>, or, for a code that names a property of
  \<^verbatim>\<open>Object.prototype\<close> and has no number written, the inherited member (a function, or
  \<^verbatim>\<open>Object.prototype\<close> itself for \<^verbatim>\<open>__proto__\<close>). So the value read, and with it a
  record's \<^verbatim>\<open>broughtForward\<close>, is a number or such a member.
\<close>

datatype jsfield = Num jsnum | ProtoMember

text \<open>
  The object pushed to \<^verbatim>\<open>products\<close> and the object pushed to
  \<^verbatim>\<open>globalStoreData\<close>. The \<^verbatim>\<open>dateLabel\<close> of a day is display text only and is
  left out.
\<close>

record product =
  category :: jsstring
  code :: jsstring
  name :: jsstring
  broughtForward :: jsfield
  received :: jsnum
  sold :: jsnum
  waste :: jsnum
  remain :: jsnum

record day_result =
  dayNum :: nat
  hasData :: bool
  products :: "product list"

text \<open>
  The own properties of \<^verbatim>\<open>previousDayRemain\<close> are a map from keys to numbers, empty
  at the start. The property names of \<^verbatim>\<open>Object.prototype\<close>:
\<close>

type_synonym carry = "jsstring \<rightharpoonup> jsnum"

definition proto_keys :: "jsstring list" where
  "proto_keys =
     [ascii ''constructor'', ascii ''__defineGetter__'', ascii ''__defineSetter__'',
      ascii ''hasOwnProperty'', ascii ''__lookupGetter__'', ascii ''__lookupSetter__'',
      ascii ''isPrototypeOf'', ascii ''propertyIsEnumerable'', ascii ''toString'',
      ascii ''valueOf'', ascii ''__proto__'', ascii ''toLocaleString'']"

text \<open>
  \<^verbatim>\<open>previousDayRemain[code]\<close>: an own property wins; otherwise an inherited member, if
  the code names one; otherwise \<^verbatim>\<open>undefined\<close> (\<open>None\<close>).
\<close>

definition carry_get :: "carry \<Rightarrow> jsstring \<Rightarrow> jsfield option" where
  "carry_get m k =
     (case m k of
        Some v \<Rightarrow> Some (Num v)
      | None \<Rightarrow> if k \<in> set proto_keys then Some ProtoMember else None)"

text \<open>
  \<^verbatim>\<open>previousDayRemain[code] = v\<close> for a number \<open>v\<close>: it creates or overwrites the own
  property, except for \<^verbatim>\<open>__proto__\<close>, whose inherited setter ignores a number.
\<close>

definition carry_set :: "carry \<Rightarrow> jsstring \<Rightarrow> jsnum \<Rightarrow> carry" where
  "carry_set m k v = (if k = ascii ''__proto__'' then m else m(k \<mapsto> v))"

text \<open>
  \<^verbatim>\<open>!previousDayRemain[code]\<close> and \<^verbatim>\<open>previousDayRemain[code] || 0\<close>: a function or
  an object is truthy.
\<close>

definition entry_falsy :: "jsfield option \<Rightarrow> bool" where
  "entry_falsy e =
     (case e of None \<Rightarrow> True | Some (Num v) \<Rightarrow> \<not> truthy v | Some ProtoMember \<Rightarrow> False)"

definition or_zero :: "jsfield option \<Rightarrow> jsfield" where
  "or_zero e =
     (case e of
        None \<Rightarrow> Num (Fin 0)
      | Some (Num v) \<Rightarrow> if truthy v then Num v else Num (Fin 0)
      | Some ProtoMember \<Rightarrow> ProtoMember)"

text \<open>
  \<^verbatim>\<open>broughtForward + received - sold - waste\<close>. When \<^verbatim>\<open>broughtForward\<close> is a function
  or an object, \<^verbatim>\<open>+\<close> concatenates its text (\<^verbatim>\<open>function Object() { [native code] }\<close>,
  \<^verbatim>\<open>[object Object]\<close>) with the text of \<^verbatim>\<open>received\<close>; that string is not a numeric
  literal, so the first \<^verbatim>\<open>-\<close> gives \<open>NaN\<close>, and so does the second.
\<close>

definition remain_of :: "jsfield \<Rightarrow> jsnum \<Rightarrow> jsnum \<Rightarrow> jsnum \<Rightarrow> jsnum" where
  "remain_of bf rcv sld wst =
     (case bf of
        Num b \<Rightarrow> js_sub (js_sub (js_add b rcv) sld) wst
      | ProtoMember \<Rightarrow> NaN)"

section \<open>The header test\<close>

text \<open>
  The keywords of the header test, as code units: \<^verbatim>\<open>U+0E22 U+0E01 U+0E21 U+0E32\<close>
  (brought forward), \<^verbatim>\<open>U+0E23 U+0E31 U+0E1A U+0E40 U+0E02 U+0E49 U+0E32\<close> (received),
  \<^verbatim>\<open>U+0E02 U+0E32 U+0E22\<close> (sold),
  \<^verbatim>\<open>U+0E15 U+0E31 U+0E14 U+0E2A U+0E15 U+0E47 U+0E2D U+0E01\<close> (cut from stock) and
  \<^verbatim>\<open>U+0E17 U+0E34 U+0E49 U+0E07\<close> (thrown away).
\<close>

definition kw_yokma :: jsstring where
  "kw_yokma = [3618, 3585, 3617, 3634]"

definition kw_rapkhao :: jsstring where
  "kw_rapkhao = [3619, 3633, 3610, 3648, 3586, 3657, 3634]"

definition kw_khai :: jsstring where
  "kw_khai = [3586, 3634, 3618]"

definition kw_tatstock :: jsstring where
  "kw_tatstock = [3605, 3633, 3604, 3626, 3605, 3655, 3629, 3585]"

definition kw_thing :: jsstring where
  "kw_thing = [3607, 3636, 3657, 3591]"

datatype role = BroughtForward | Received | Sold | Waste | Ignored

text \<open>
  The \<^verbatim>\<open>if\<close> / \<^verbatim>\<open>else if\<close> chain on \<^verbatim>\<open>header.includes(...)\<close>, in the order of
  the source.
\<close>

definition column_role :: "jsstring \<Rightarrow> role" where
  "column_role header =
     (if js_includes header kw_yokma then BroughtForward
      else if js_includes header kw_rapkhao \<or> js_includes header (ascii ''total'') then Received
      else if js_includes header kw_khai \<or> js_includes header kw_tatstock then Sold
      else if js_includes header (ascii ''was'') \<or> js_includes header kw_thing then Waste
      else Ignored)"

text \<open>\<^verbatim>\<open>(row1[dayStartCol + c] || '').toLowerCase()\<close>.\<close>

definition header_at :: "row \<Rightarrow> nat \<Rightarrow> jsstring" where
  "header_at row1 i = toLowerCase (case cell row1 i of None \<Rightarrow> [] | Some h \<Rightarrow> h)"

section \<open>Extraction of one day block of one row\<close>

text \<open>
  The body of \<^verbatim>\<open>for (let c = 0; c < 8; c++)\<close>. The four running values are
  \<^verbatim>\<open>received\<close>, \<^verbatim>\<open>sold\<close>, \<^verbatim>\<open>waste\<close> and \<^verbatim>\<open>broughtForwardSheet\<close>, in the order
  the source declares them.
\<close>

type_synonym figures = "jsnum \<times> jsnum \<times> jsnum \<times> jsnum"

definition column_step :: "row \<Rightarrow> row \<Rightarrow> nat \<Rightarrow> figures \<Rightarrow> nat \<Rightarrow> figures" where
  "column_step row1 r dayStartCol acc c =
     (case acc of (rcv, sld, wst, broughtForwardSheet) \<Rightarrow>
        let header = header_at row1 (dayStartCol + c);
            val = cleanNumber (cell_val r (dayStartCol + c));
            absVal = js_abs val
        in (case column_role header of
              BroughtForward \<Rightarrow> (rcv, sld, wst, val)
            | Received \<Rightarrow> (js_max rcv absVal, sld, wst, broughtForwardSheet)
            | Sold \<Rightarrow> (rcv, js_add sld absVal, wst, broughtForwardSheet)
            | Waste \<Rightarrow> (rcv, sld, js_add wst absVal, broughtForwardSheet)
            | Ignored \<Rightarrow> (rcv, sld, wst, broughtForwardSheet)))"

definition extract_block :: "row \<Rightarrow> row \<Rightarrow> nat \<Rightarrow> figures" where
  "extract_block row1 r dayStartCol =
     foldl (column_step row1 r dayStartCol) (Fin 0, Fin 0, Fin 0, Fin 0) [0..<8]"

section \<open>The row loop and the day loop\<close>

text \<open>
  \<^verbatim>\<open>if (!row || !row[1] || row[1].trim() === '' || !row[3] || row[3].trim() === '') continue;\<close>
  A row of the parser is an array, so \<^verbatim>\<open>!row\<close> is false; a cell is \<^verbatim>\<open>undefined\<close> or
  a string, and the only falsy string is the empty one.
\<close>

definition blank :: "jsstring option \<Rightarrow> bool" where
  "blank c = (case c of None \<Rightarrow> True | Some s \<Rightarrow> s = [] \<or> trim s = [])"

definition valid_row :: "row \<Rightarrow> bool" where
  "valid_row r \<longleftrightarrow> \<not> (blank (cell r 1) \<or> blank (cell r 3))"

text \<open>
  The rest of the loop body for a row that is kept: extraction, the day-1 seed, the
  brought-forward read, the remain, the write to \<^verbatim>\<open>previousDayRemain\<close>. A kept row has a
  cell 3, so its cells 1 and 2 exist as well.
\<close>

definition process_row :: "nat \<Rightarrow> row \<Rightarrow> carry \<Rightarrow> row \<Rightarrow> carry \<times> product" where
  "process_row day row1 previousDayRemain r =
     (let dayStartCol = 8 + (day - 1) * 8;
          cat = r ! 1;
          cod = r ! 2;
          nam = r ! 3
      in case extract_block row1 r dayStartCol of
           (rcv, sld, wst, broughtForwardSheet) \<Rightarrow>
             let seeded =
                   (if day = 1 \<and> entry_falsy (carry_get previousDayRemain cod)
                         \<and> js_gt broughtForwardSheet (Fin 0)
                    then carry_set previousDayRemain cod broughtForwardSheet
                    else previousDayRemain);
                 bf = or_zero (carry_get seeded cod);
                 rem = remain_of bf rcv sld wst
             in (carry_set seeded cod rem,
                 \<lparr>category = cat, code = cod, name = nam, broughtForward = bf,
                  received = rcv, sold = sld, waste = wst, remain = rem\<rparr>))"

text \<open>The test that sets \<^verbatim>\<open>dayHasAnyData\<close>.\<close>

definition has_data :: "product \<Rightarrow> bool" where
  "has_data p \<longleftrightarrow> broughtForward p \<noteq> Num (Fin 0) \<or> received p \<noteq> Fin 0 \<or> sold p \<noteq> Fin 0
     \<or> waste p \<noteq> Fin 0 \<or> remain p \<noteq> Fin 0"

text \<open>
  \<^verbatim>\<open>for (let i = 1; i < data.length; i++)\<close> over the rows after the header: the result is
  the carry state after the last row, \<^verbatim>\<open>dayHasAnyData\<close> and \<^verbatim>\<open>products\<close>.
\<close>

fun row_loop :: "nat \<Rightarrow> row \<Rightarrow> carry \<Rightarrow> row list \<Rightarrow> carry \<times> bool \<times> product list" where
  "row_loop day row1 m [] = (m, False, [])"
| "row_loop day row1 m (r # rs) =
     (if \<not> valid_row r then row_loop day row1 m rs
      else case process_row day row1 m r of
             (m', p) \<Rightarrow>
               (case row_loop day row1 m' rs of
                  (m'', anyData, ps) \<Rightarrow> (m'', has_data p \<or> anyData, p # ps)))"

text \<open>\<^verbatim>\<open>for (let day = 1; day <= maxDays; day++)\<close>, over the list of the days.\<close>

fun day_loop :: "row \<Rightarrow> row list \<Rightarrow> carry \<Rightarrow> nat list \<Rightarrow> day_result list" where
  "day_loop row1 rows m [] = []"
| "day_loop row1 rows m (day # days) =
     (case row_loop day row1 m rows of
        (m', anyData, ps) \<Rightarrow>
          \<lparr>dayNum = day, hasData = anyData, products = ps\<rparr> # day_loop row1 rows m' days)"

text \<open>
  \<^verbatim>\<open>
  const validDays = globalStoreData.filter(d => d.hasData);
  if (validDays.length > 0) { globalStoreData = validDays; }
  \<close>
\<close>

definition day_filter :: "day_result list \<Rightarrow> day_result list" where
  "day_filter store =
     (let validDays = filter hasData store
      in if length validDays > 0 then validDays else store)"

text \<open>
  \<^verbatim>\<open>processData\<close> up to the assignment of \<^verbatim>\<open>globalStoreData\<close>; what follows in the
  source fills the page. \<open>None\<close> is the early return on fewer than two rows, which leaves
  \<^verbatim>\<open>globalStoreData\<close> as it was. \<open>all_days\<close> is the list built by the day loop,
  before the filter; the source reaches it with a header row and at least one more row.
\<close>

definition all_days :: "row list \<Rightarrow> day_result list" where
  "all_days data =
     (let row1 = hd data;
          totalCols = length row1
      in day_loop row1 (tl data) Map.empty [1..<Suc (nat (maxDays totalCols))])"

definition processData :: "row list \<Rightarrow> day_result list option" where
  "processData data =
     (if length data < 2 then None else Some (day_filter (all_days data)))"

section \<open>Auxiliary notions for the statements\<close>





text \<open>
  The balance of a record as the specification words it: brought-forward plus received
  minus sold minus waste as an exact number, with no rounding, when the four figures are
  finite numbers.
\<close>

definition spec_remain :: "product \<Rightarrow> rat option" where
  "spec_remain p =
     (case broughtForward p of
        Num (Fin b) \<Rightarrow>
          (case received p of
             Fin r \<Rightarrow>
               (case sold p of
                  Fin s \<Rightarrow> (case waste p of Fin w \<Rightarrow> Some (b + r - s - w) | _ \<Rightarrow> None)
                | _ \<Rightarrow> None)
           | _ \<Rightarrow> None)
      | _ \<Rightarrow> None)"

text \<open>The three movement figures of a block are at least zero.\<close>

definition figures_nonneg :: "figures \<Rightarrow> bool" where
  "figures_nonneg acc \<longleftrightarrow> nonneg (fst acc) \<and> nonneg (fst (snd acc)) \<and> nonneg (fst (snd (snd acc)))"

text \<open>The brought-forward figure that the sheet states for a row in the block of a day.\<close>

definition sheet_bf :: "row \<Rightarrow> row \<Rightarrow> nat \<Rightarrow> jsnum" where
  "sheet_bf row1 r day = snd (snd (snd (extract_block row1 r (8 + (day - 1) * 8))))"

text \<open>
  The carry state after the writes of a list of emitted records, in order: every record
  writes its remain under its code.
\<close>

fun carry_after :: "carry \<Rightarrow> product list \<Rightarrow> carry" where
  "carry_after m [] = m"
| "carry_after m (p # ps) = carry_after (carry_set m (code p) (remain p)) ps"

text \<open>The records emitted before a given day.\<close>

definition earlier_records :: "day_result list \<Rightarrow> nat \<Rightarrow> product list" where
  "earlier_records store k = concat (map products (take k store))"

text \<open>
  What \<^verbatim>\<open>previousDayRemain[c]\<close> reads when the \<open>i\<close>-th kept row of the day with index
  \<open>k\<close> (day number \<open>k + 1\<close>) is reached: the state after the writes of all records
  emitted before.
\<close>

definition state_before :: "row list \<Rightarrow> nat \<Rightarrow> nat \<Rightarrow> carry" where
  "state_before data k i =
     carry_after Map.empty
       (earlier_records (all_days data) k @ take i (products (all_days data ! k)))"

definition entry_before :: "row list \<Rightarrow> nat \<Rightarrow> nat \<Rightarrow> jsstring \<Rightarrow> jsfield option" where
  "entry_before data k i c = carry_get (state_before data k i) c"

section \<open>Example sheets\<close>

text \<open>
  A header row: eight identity columns, then day blocks of eight columns whose headers
  are the Thai keywords themselves and the English \<^verbatim>\<open>Total\<close> and \<^verbatim>\<open>Waste\<close>.
\<close>

definition ident_cols :: row where
  "ident_cols = [ascii ''No'', ascii ''Category'', ascii ''Code'', ascii ''Name'', [], [], [], []]"

definition day_cols :: row where
  "day_cols = [kw_yokma, kw_rapkhao, ascii ''Total'', kw_khai, kw_tatstock, ascii ''Waste'', [], []]"

definition hdr1 :: row where
  "hdr1 = ident_cols @ day_cols"

definition hdr2 :: row where
  "hdr2 = ident_cols @ day_cols @ day_cols"

definition hdr3 :: row where
  "hdr3 = ident_cols @ day_cols @ day_cols @ day_cols"

definition product_cols :: "string \<Rightarrow> string \<Rightarrow> string \<Rightarrow> row" where
  "product_cols cat cod nam = [ascii ''1'', ascii cat, ascii cod, ascii nam, [], [], [], []]"

text \<open>The end-to-end scenario of the specification: one product, two days.\<close>

definition scenario_sheet :: "row list" where
  "scenario_sheet =
     [hdr2,
      product_cols ''Drinks'' ''P1'' ''Water''
        @ [ascii ''10'', ascii ''5'', ascii ''5'', ascii ''2'', ascii ''1'', ascii ''0'', [], []]
        @ [[], ascii ''3'', [], ascii ''3'', [], [], [], []]]"

text \<open>A product that sells more than it has, with negative cells, and a short row.\<close>

definition oversold_sheet :: "row list" where
  "oversold_sheet =
     [hdr2,
      product_cols ''Drinks'' ''P1'' ''Water''
        @ [[], ascii ''-2'', [], ascii ''-5'', [], [], [], []]]"

text \<open>A sheet whose stated opening balance is negative.\<close>

definition negative_opening_sheet :: "row list" where
  "negative_opening_sheet =
     [hdr1,
      product_cols ''Drinks'' ''P1'' ''Water''
        @ [ascii ''-5'', ascii ''3'', [], [], [], [], [], []]]"


text \<open>Three days; the product is sold out on day 1, untouched on day 2, restocked on day 3.\<close>

definition gap_sheet :: "row list" where
  "gap_sheet =
     [hdr3,
      product_cols ''Drinks'' ''P1'' ''Water''
        @ [[], ascii ''5'', [], ascii ''5'', [], [], [], []]
        @ [[], [], [], [], [], [], [], []]
        @ [[], ascii ''3'', [], [], [], [], [], []]]"

text \<open>Two rows with the same product code, two days.\<close>

definition twin_sheet :: "row list" where
  "twin_sheet =
     [hdr2,
      product_cols ''Drinks'' ''P1'' ''Water''
        @ [[], ascii ''5'', [], [], [], [], [], []],
      product_cols ''Drinks'' ''P1'' ''Water 2''
        @ [[], ascii ''1'', [], [], [], [], [], []]]"

text \<open>
  Two rows with the same product code on one day: the first nets to zero, the second
  states an opening balance.
\<close>

definition twin_seed_sheet :: "row list" where
  "twin_seed_sheet =
     [hdr1,
      product_cols ''Drinks'' ''P1'' ''Water''
        @ [[], ascii ''3'', [], ascii ''3'', [], [], [], []],
      product_cols ''Drinks'' ''P1'' ''Water 2''
        @ [ascii ''7'', [], [], [], [], [], [], []]]"

text \<open>
  Two rows with the same product code, two days; on day 2 the first row receives and
  sells \<^verbatim>\<open>Infinity\<close>.
\<close>

definition infinite_sheet :: "row list" where
  "infinite_sheet =
     [hdr2,
      product_cols ''Drinks'' ''P1'' ''Water''
        @ [[], ascii ''2'', [], [], [], [], [], []]
        @ [[], ascii ''Infinity'', [], ascii ''Infinity'', [], [], [], []],
      product_cols ''Drinks'' ''P1'' ''Water 2'']"

text \<open>Decimal figures that are not doubles: an opening balance 0.1, received 0.2, sold 0.3.\<close>

definition decimal_sheet :: "row list" where
  "decimal_sheet =
     [hdr2,
      product_cols ''Drinks'' ''P1'' ''Water''
        @ [ascii ''0.1'', ascii ''0.2'', [], ascii ''0.3'', [], [], [], []]]"


text \<open>A product whose code is \<^verbatim>\<open>constructor\<close>, two days.\<close>

definition constructor_sheet :: "row list" where
  "constructor_sheet =
     [hdr2,
      product_cols ''Drinks'' ''constructor'' ''Water''
        @ [ascii ''4'', ascii ''5'', [], [], [], [], [], []]
        @ [[], ascii ''1'', [], [], [], [], [], []]]"

text \<open>A product whose code is \<^verbatim>\<open>__proto__\<close>, two days.\<close>

definition proto_sheet :: "row list" where
  "proto_sheet =
     [hdr2,
      product_cols ''Drinks'' ''__proto__'' ''Water''
        @ [ascii ''4'', ascii ''5'', [], [], [], [], [], []]
        @ [[], ascii ''1'', [], [], [], [], [], []]]"

text \<open>Two rows whose code is \<^verbatim>\<open>__proto__\<close>, two days.\<close>

definition proto_twin_sheet :: "row list" where
  "proto_twin_sheet =
     [hdr2,
      product_cols ''Drinks'' ''__proto__'' ''Water''
        @ [[], ascii ''5'', [], [], [], [], [], []]
        @ [[], ascii ''1'', [], [], [], [], [], []],
      product_cols ''Drinks'' ''__proto__'' ''Water 2''
        @ [[], ascii ''2'', [], [], [], [], [], []]]"

text \<open>
  Two rows with the same product code on one day, both stating an opening balance; the
  first sells all it has.
\<close>

definition double_seed_sheet :: "row list" where
  "double_seed_sheet =
     [hdr1,
      product_cols ''Drinks'' ''P1'' ''Water''
        @ [ascii ''10'', [], [], ascii ''10'', [], [], [], []],
      product_cols ''Drinks'' ''P1'' ''Water 2''
        @ [ascii ''7'', [], [], [], [], [], [], []]]"

text \<open>Abbreviations for writing down emitted records with finite figures.\<close>

definition item :: "string \<Rightarrow> string \<Rightarrow> string \<Rightarrow> rat \<Rightarrow> rat \<Rightarrow> rat \<Rightarrow> rat \<Rightarrow> rat \<Rightarrow> product" where
  "item cat cod nam b r s w m =
     \<lparr>category = ascii cat, code = ascii cod, name = ascii nam, broughtForward = Num (Fin b),
      received = Fin r, sold = Fin s, waste = Fin w, remain = Fin m\<rparr>"

definition item_of :: "string \<Rightarrow> string \<Rightarrow> string \<Rightarrow> jsfield \<Rightarrow> jsnum \<Rightarrow> jsnum \<Rightarrow> jsnum \<Rightarrow> jsnum \<Rightarrow> product" where
  "item_of cat cod nam b r s w m =
     \<lparr>category = ascii cat, code = ascii cod, name = ascii nam, broughtForward = b,
      received = r, sold = s, waste = w, remain = m\<rparr>"

definition day_of :: "nat \<Rightarrow> bool \<Rightarrow> product list \<Rightarrow> day_result" where
  "day_of n a ps = \<lparr>dayNum = n, hasData = a, products = ps\<rparr>"

section \<open>Rounding\<close>

lemma bitlen_0: "bitlen 0 = 0"
  by (simp add: bitlen.simps)

lemma bitlen_pos: "0 < n \<Longrightarrow> bitlen n = Suc (bitlen (n div 2))"
  by (subst bitlen.simps) simp

lemma floor_rat_numeral: "\<lfloor>numeral a / numeral b :: rat\<rfloor> = numeral a div numeral b"
  using floor_divide_of_int_eq[of "numeral a" "numeral b", where ?'a = rat] by simp

lemma ceiling_rat_numeral: "\<lceil>numeral a / numeral b :: rat\<rceil> = - ((- numeral a) div numeral b)"
  using floor_divide_of_int_eq[of "- numeral a" "numeral b", where ?'a = rat]
  by (simp add: ceiling_def)



lemma bitlen_le: "n < 2 ^ k \<Longrightarrow> bitlen n \<le> k"
proof (induction k arbitrary: n)
  case 0
  then show ?case by (simp add: bitlen_0)
next
  case (Suc k)
  show ?case
  proof (cases "n = 0")
    case True
    then show ?thesis by (simp add: bitlen_0)
  next
    case False
    have "n div 2 < 2 ^ k"
      using Suc.prems by simp
    then have "bitlen (n div 2) \<le> k"
      by (rule Suc.IH)
    then show ?thesis
      using False by (simp add: bitlen_pos)
  qed
qed

lemma pow2_nonpos: "e \<le> 0 \<Longrightarrow> pow2 e = 1 / 2 ^ nat (- e)"
  by (cases "e = 0") (simp_all add: pow2_def)

lemma round_half_even_of_int: "round_half_even (of_int k) = k"
  by (simp add: round_half_even_def)

lemma round_double_of_int:
  assumes "\<bar>n\<bar> < 2 ^ 53"
  shows "round_double (of_int n) = Fin (of_int n)"
proof (cases "n = 0")
  case True
  then show ?thesis by (simp add: round_double_def)
next
  case False
  define a :: rat where "a = \<bar>of_int n\<bar>"
  have a: "a = of_int \<bar>n\<bar>" by (simp add: a_def)
  have a1: "1 \<le> a" using False by (simp add: a)
  define b where "b = bitlen (nat \<bar>n\<bar>)"
  have "nat \<bar>n\<bar> < 2 ^ 53"
    using assms by (simp add: nat_less_iff)
  then have b53: "b \<le> 53"
    unfolding b_def by (rule bitlen_le)
  have "0 < nat \<bar>n\<bar>" using False by simp
  then have b1: "1 \<le> b"
    by (simp add: b_def bitlen_pos)
  have "\<lfloor>a\<rfloor> = \<bar>n\<bar>"
    by (simp only: a floor_of_int)
  then have fl: "floor_log2 a = int b - 1"
    using a1 by (simp add: floor_log2_def b_def)
  define e where "e = max (floor_log2 a - 52) (- 1074)"
  have e: "e = int b - 53" using b1 by (simp add: e_def fl)
  have e0: "e \<le> 0" using b53 by (simp add: e)
  define j where "j = nat (- e)"
  have p: "pow2 e = 1 / 2 ^ j"
    using pow2_nonpos[OF e0] by (simp add: j_def)
  have "a / pow2 e = of_int (\<bar>n\<bar> * 2 ^ j)"
    by (simp add: p a)
  then have m: "round_half_even (a / pow2 e) = \<bar>n\<bar> * 2 ^ j"
    by (simp only: round_half_even_of_int)
  have "of_int (round_half_even (a / pow2 e)) * pow2 e = of_int (\<bar>n\<bar> * 2 ^ j) * pow2 e"
    by (simp only: m)
  also have "\<dots> = a"
    by (simp add: p a)
  finally have v: "of_int (round_half_even (a / pow2 e)) * pow2 e = a" .
  have small: "\<not> (2 :: rat) ^ 1024 \<le> a"
  proof -
    have "a < 2 ^ 53" using assms unfolding a
      by (metis of_int_less_numeral_power_cancel_iff)
    moreover have "(2 :: rat) ^ 53 \<le> 2 ^ 1024" by simp
    ultimately show ?thesis by linarith
  qed
  have q0: "(of_int n :: rat) \<noteq> 0" using False by simp
  show ?thesis
    using q0 v small
    by (simp add: round_double_def Let_def a_def[symmetric] e_def[symmetric])
       (auto simp: a_def)
qed

lemma round_double_numeral:
  "(numeral k :: int) < 2 ^ 53 \<Longrightarrow> round_double (numeral k) = Fin (numeral k)"
  using round_double_of_int[of "numeral k"] by simp

lemma round_double_neg_numeral:
  "(numeral k :: int) < 2 ^ 53 \<Longrightarrow> round_double (- numeral k) = Fin (- numeral k)"
  using round_double_of_int[of "- numeral k"] by simp

lemma round_double_0: "round_double 0 = Fin 0"
  by (simp add: round_double_def)

lemma round_double_1: "round_double 1 = Fin 1"
  using round_double_of_int[of 1] by simp

lemma round_double_not_NaN: "round_double q \<noteq> NaN"
  by (simp add: round_double_def Let_def)

lemma js_add_int:
  "\<bar>a + b\<bar> < 2 ^ 53 \<Longrightarrow> js_add (Fin (of_int a)) (Fin (of_int b)) = Fin (of_int (a + b))"
  using round_double_of_int[of "a + b"] by simp

lemma js_sub_int:
  "\<bar>a - b\<bar> < 2 ^ 53 \<Longrightarrow> js_sub (Fin (of_int a)) (Fin (of_int b)) = Fin (of_int (a - b))"
  using round_double_of_int[of "a - b"] by (simp add: js_sub_def)

text \<open>
  Evaluation of the rounding: on integer numerals by exactness, on other rationals by
  unfolding the definition.
\<close>

lemmas round_int = round_double_0 round_double_1 round_double_numeral round_double_neg_numeral

lemmas round_defs =
  round_double_def floor_log2_def round_half_even_def pow2_def bitlen_0 bitlen_pos
  floor_rat_numeral ceiling_rat_numeral

section \<open>Evaluation\<close>

text \<open>The definitions that the simplifier unfolds to run the model on a concrete sheet.\<close>

lemmas string_defs =
  ascii_def clean_str_def trim_def remove_commas_def is_ws_def parseFloat_def
  parse_unsigned_def is_digit_def exponent_part_def scale10_def round_int

lemmas header_defs =
  column_role_def header_at_def toLowerCase_def kw_yokma_def kw_rapkhao_def kw_khai_def
  kw_tatstock_def kw_thing_def

lemmas pipeline_defs =
  processData_def all_days_def day_filter_def maxDays_def process_row_def valid_row_def
  blank_def has_data_def or_zero_def entry_falsy_def truthy_def js_gt_def js_sub_def
  remain_of_def carry_get_def carry_set_def proto_keys_def
  js_max_def extract_block_def column_step_def cell_val_def cell_def upt_conv_Cons Let_def

lemmas sheet_defs =
  ident_cols_def day_cols_def hdr1_def hdr2_def hdr3_def product_cols_def item_def item_of_def
  day_of_def

section \<open>The loops, record by record\<close>

lemma carry_set_twice: "carry_set (carry_set m k a) k b = carry_set m k b"
  by (simp add: carry_set_def)

lemma process_row_snd:
  "snd (process_row d row1 m r) =
     (let s = 8 + (d - 1) * 8;
          fg = extract_block row1 r s;
          bfs = snd (snd (snd fg));
          seeded = (if d = 1 \<and> entry_falsy (carry_get m (r ! 2)) \<and> js_gt bfs (Fin 0)
                    then carry_set m (r ! 2) bfs else m);
          bf = or_zero (carry_get seeded (r ! 2))
      in \<lparr>category = r ! 1, code = r ! 2, name = r ! 3, broughtForward = bf,
          received = fst fg, sold = fst (snd fg), waste = fst (snd (snd fg)),
          remain = remain_of bf (fst fg) (fst (snd fg)) (fst (snd (snd fg)))\<rparr>)"
proof (cases "d = 1")
  case True
  then show ?thesis
    by (cases "extract_block row1 r 8") (simp add: process_row_def Let_def)
next
  case False
  then show ?thesis
    by (cases "extract_block row1 r (8 + (d - 1) * 8)") (simp add: process_row_def Let_def)
qed

lemma process_row_fst:
  "fst (process_row d row1 m r) =
     carry_set m (code (snd (process_row d row1 m r))) (remain (snd (process_row d row1 m r)))"
  by (simp add: process_row_def Let_def carry_set_twice split: prod.splits)

lemma process_row_ident:
  "category (snd (process_row d row1 m r)) = r ! 1
   \<and> code (snd (process_row d row1 m r)) = r ! 2
   \<and> name (snd (process_row d row1 m r)) = r ! 3"
  by (simp add: process_row_snd Let_def)

lemma process_row_remain:
  "remain (snd (process_row d row1 m r)) =
     remain_of (broughtForward (snd (process_row d row1 m r)))
       (received (snd (process_row d row1 m r)))
       (sold (snd (process_row d row1 m r)))
       (waste (snd (process_row d row1 m r)))"
  by (simp add: process_row_snd Let_def)

lemma or_zero_Some: "or_zero (Some (Num v)) = Num (if v = NaN then Fin 0 else v)"
  by (auto simp: or_zero_def truthy_def)

lemma or_zero_pos: "js_gt s (Fin 0) \<Longrightarrow> or_zero (Some (Num s)) = Num s"
  by (cases s) (auto simp: or_zero_def truthy_def js_gt_def)

lemma carry_get_proto: "m (ascii ''__proto__'') = None \<Longrightarrow> carry_get m (ascii ''__proto__'') = Some ProtoMember"
  by (simp add: carry_get_def proto_keys_def)

lemma seeded_read:
  assumes "m (ascii ''__proto__'') = None" and "entry_falsy (carry_get m c)"
  shows "carry_get (carry_set m c s) c = Some (Num s)"
proof -
  have "c \<noteq> ascii ''__proto__''"
    using assms carry_get_proto[of m] by (auto simp: entry_falsy_def)
  then show ?thesis
    by (simp add: carry_set_def carry_get_def)
qed

lemma process_row_bf:
  assumes "m (ascii ''__proto__'') = None"
  shows "broughtForward (snd (process_row d row1 m r)) =
     (if d = 1 \<and> entry_falsy (carry_get m (r ! 2)) \<and> js_gt (sheet_bf row1 r d) (Fin 0)
      then Num (sheet_bf row1 r d) else or_zero (carry_get m (r ! 2)))"
proof (cases "d = 1 \<and> entry_falsy (carry_get m (r ! 2)) \<and> js_gt (sheet_bf row1 r d) (Fin 0)")
  case True
  then have "carry_get (carry_set m (r ! 2) (sheet_bf row1 r 1)) (r ! 2) = Some (Num (sheet_bf row1 r 1))"
    using seeded_read[of m "r ! 2" "sheet_bf row1 r 1"] assms by simp
  then show ?thesis
    using True or_zero_pos[of "sheet_bf row1 r 1"]
    by (simp add: process_row_snd Let_def sheet_bf_def)
next
  case False
  then show ?thesis
    by (cases "d = 1") (auto simp: process_row_snd Let_def sheet_bf_def)
qed

lemma carry_after_append: "carry_after m (xs @ ys) = carry_after (carry_after m xs) ys"
  by (induction xs arbitrary: m) auto

lemma carry_after_notin: "k \<notin> code ` set ps \<Longrightarrow> carry_after m ps k = m k"
  by (induction ps arbitrary: m) (auto simp: carry_set_def)

lemma carry_after_last:
  "code p \<notin> code ` set ps2 \<Longrightarrow> code p \<noteq> ascii ''__proto__'' \<Longrightarrow>
   carry_after m (ps1 @ p # ps2) (code p) = Some (remain p)"
  by (simp add: carry_after_append carry_after_notin carry_set_def)

lemma carry_after_proto:
  "m (ascii ''__proto__'') = None \<Longrightarrow> carry_after m ps (ascii ''__proto__'') = None"
  by (induction ps arbitrary: m) (auto simp: carry_set_def)

lemma row_loop_Cons_valid:
  assumes "valid_row r" and "process_row d row1 m r = (m1, p)"
  shows "fst (row_loop d row1 m (r # rs)) = fst (row_loop d row1 m1 rs)"
    and "fst (snd (row_loop d row1 m (r # rs))) = (has_data p \<or> fst (snd (row_loop d row1 m1 rs)))"
    and "snd (snd (row_loop d row1 m (r # rs))) = p # snd (snd (row_loop d row1 m1 rs))"
  using assms by (simp_all split: prod.splits)

lemma row_loop_Cons_invalid:
  "\<not> valid_row r \<Longrightarrow> row_loop d row1 m (r # rs) = row_loop d row1 m rs"
  by simp

lemma row_loop_carry:
  "fst (row_loop d row1 m rows) = carry_after m (snd (snd (row_loop d row1 m rows)))"
proof (induction rows arbitrary: m)
  case Nil
  then show ?case by simp
next
  case (Cons r rs)
  show ?case
  proof (cases "valid_row r")
    case False
    then show ?thesis using Cons.IH by simp
  next
    case True
    obtain m1 p where pr: "process_row d row1 m r = (m1, p)"
      by (cases "process_row d row1 m r")
    then have m1: "m1 = carry_set m (code p) (remain p)"
      using process_row_fst[of d row1 m r] by simp
    have "carry_after m (p # snd (snd (row_loop d row1 m1 rs))) =
          carry_after m1 (snd (snd (row_loop d row1 m1 rs)))"
      by (simp only: carry_after.simps m1)
    then show ?thesis
      using Cons.IH[of m1]
      by (simp only: row_loop_Cons_valid[OF True pr])
  qed
qed

lemma row_loop_length:
  "length (snd (snd (row_loop d row1 m rows))) = length (filter valid_row rows)"
proof (induction rows arbitrary: m)
  case Nil
  then show ?case by simp
next
  case (Cons r rs)
  show ?case
  proof (cases "valid_row r")
    case False
    then show ?thesis using Cons.IH by simp
  next
    case True
    obtain m1 p where pr: "process_row d row1 m r = (m1, p)"
      by (cases "process_row d row1 m r")
    show ?thesis
      using Cons.IH[of m1] True by (simp add: row_loop_Cons_valid(3)[OF True pr] del: row_loop.simps)
  qed
qed

lemma row_loop_nth:
  "i < length (filter valid_row rows) \<Longrightarrow>
   snd (snd (row_loop d row1 m rows)) ! i =
     snd (process_row d row1 (carry_after m (take i (snd (snd (row_loop d row1 m rows)))))
            (filter valid_row rows ! i))"
proof (induction rows arbitrary: m i)
  case Nil
  then show ?case by simp
next
  case (Cons r rs)
  show ?case
  proof (cases "valid_row r")
    case False
    then show ?thesis using Cons by simp
  next
    case True
    obtain m1 p where pr: "process_row d row1 m r = (m1, p)"
      by (cases "process_row d row1 m r")
    then have m1: "m1 = carry_set m (code p) (remain p)"
      using process_row_fst[of d row1 m r] by simp
    note ps = row_loop_Cons_valid(3)[OF True pr, of rs]
    show ?thesis
    proof (cases i)
      case 0
      then show ?thesis using True pr by (simp add: ps del: row_loop.simps)
    next
      case (Suc j)
      then have j: "j < length (filter valid_row rs)"
        using Cons.prems True by simp
      have "carry_after m (take i (p # snd (snd (row_loop d row1 m1 rs)))) =
            carry_after m1 (take j (snd (snd (row_loop d row1 m1 rs))))"
        using Suc by (simp only: take_Suc_Cons carry_after.simps m1)
      then show ?thesis
        using Cons.IH[OF j, of m1] True Suc by (simp add: ps del: row_loop.simps)
    qed
  qed
qed

lemma row_loop_any:
  "fst (snd (row_loop d row1 m rows)) = (\<exists>p\<in>set (snd (snd (row_loop d row1 m rows))). has_data p)"
proof (induction rows arbitrary: m)
  case Nil
  then show ?case by simp
next
  case (Cons r rs)
  show ?case
  proof (cases "valid_row r")
    case False
    then show ?thesis using Cons.IH by simp
  next
    case True
    obtain m1 p where pr: "process_row d row1 m r = (m1, p)"
      by (cases "process_row d row1 m r")
    show ?thesis
      using Cons.IH[of m1]
      by (simp add: row_loop_Cons_valid(2,3)[OF True pr] del: row_loop.simps)
  qed
qed

lemma length_day_loop: "length (day_loop row1 rows m days) = length days"
  by (induction days arbitrary: m) (auto split: prod.splits)

lemma dayNum_day_loop: "map dayNum (day_loop row1 rows m days) = days"
  by (induction days arbitrary: m) (auto split: prod.splits)

lemma earlier_records_Cons: "earlier_records (h # rest) (Suc j) = products h @ earlier_records rest j"
  by (simp add: earlier_records_def)

lemma day_loop_nth:
  "k < length days \<Longrightarrow>
   products (day_loop row1 rows m days ! k) =
     snd (snd (row_loop (days ! k) row1
        (carry_after m (earlier_records (day_loop row1 rows m days) k)) rows))"
proof (induction days arbitrary: m k)
  case Nil
  then show ?case by simp
next
  case (Cons d ds)
  obtain m1 a ps where rl: "row_loop d row1 m rows = (m1, a, ps)"
    by (cases "row_loop d row1 m rows") auto
  then have m1: "m1 = carry_after m ps"
    using row_loop_carry[of d row1 m rows] by simp
  have dl: "day_loop row1 rows m (d # ds) =
      \<lparr>dayNum = d, hasData = a, products = ps\<rparr> # day_loop row1 rows m1 ds"
    using rl by simp
  show ?case
  proof (cases k)
    case 0
    then show ?thesis using rl dl by (simp add: earlier_records_def)
  next
    case (Suc j)
    then have "j < length ds" using Cons.prems by simp
    from Cons.IH[OF this, of m1] show ?thesis
      using Suc dl m1 by (simp add: earlier_records_Cons carry_after_append)
  qed
qed

section \<open>The example sheets, evaluated\<close>

lemma all_days_scenario_sheet:
  "all_days scenario_sheet =
     [day_of 1 True [item ''Drinks'' ''P1'' ''Water'' 10 5 3 0 12],
      day_of 2 True [item ''Drinks'' ''P1'' ''Water'' 12 3 3 0 12]]"
  by (simp add: scenario_sheet_def sheet_defs pipeline_defs header_defs string_defs)

lemma all_days_oversold_sheet:
  "all_days oversold_sheet =
     [day_of 1 True [item ''Drinks'' ''P1'' ''Water'' 0 2 5 0 (- 3)],
      day_of 2 True [item ''Drinks'' ''P1'' ''Water'' (- 3) 0 0 0 (- 3)]]"
  by (simp add: oversold_sheet_def sheet_defs pipeline_defs header_defs string_defs)

lemma all_days_negative_opening_sheet:
  "all_days negative_opening_sheet =
     [day_of 1 True [item ''Drinks'' ''P1'' ''Water'' 0 3 0 0 3]]"
  by (simp add: negative_opening_sheet_def sheet_defs pipeline_defs header_defs string_defs)


lemma all_days_gap_sheet:
  "all_days gap_sheet =
     [day_of 1 True [item ''Drinks'' ''P1'' ''Water'' 0 5 5 0 0],
      day_of 2 False [item ''Drinks'' ''P1'' ''Water'' 0 0 0 0 0],
      day_of 3 True [item ''Drinks'' ''P1'' ''Water'' 0 3 0 0 3]]"
  by (simp add: gap_sheet_def sheet_defs pipeline_defs header_defs string_defs)

lemma all_days_twin_sheet:
  "all_days twin_sheet =
     [day_of 1 True [item ''Drinks'' ''P1'' ''Water'' 0 5 0 0 5,
                     item ''Drinks'' ''P1'' ''Water 2'' 5 1 0 0 6],
      day_of 2 True [item ''Drinks'' ''P1'' ''Water'' 6 0 0 0 6,
                     item ''Drinks'' ''P1'' ''Water 2'' 6 0 0 0 6]]"
  by (simp add: twin_sheet_def sheet_defs pipeline_defs header_defs string_defs)

lemma all_days_twin_seed_sheet:
  "all_days twin_seed_sheet =
     [day_of 1 True [item ''Drinks'' ''P1'' ''Water'' 0 3 3 0 0,
                     item ''Drinks'' ''P1'' ''Water 2'' 7 0 0 0 7]]"
  by (simp add: twin_seed_sheet_def sheet_defs pipeline_defs header_defs string_defs)

lemma processData_scenario_sheet:
  "processData scenario_sheet =
     Some [day_of 1 True [item ''Drinks'' ''P1'' ''Water'' 10 5 3 0 12],
           day_of 2 True [item ''Drinks'' ''P1'' ''Water'' 12 3 3 0 12]]"
proof -
  have "\<not> length scenario_sheet < 2"
    by (simp add: scenario_sheet_def)
  then show ?thesis
    by (simp add: processData_def all_days_scenario_sheet day_filter_def day_of_def)
qed

lemma processData_oversold_sheet:
  "processData oversold_sheet =
     Some [day_of 1 True [item ''Drinks'' ''P1'' ''Water'' 0 2 5 0 (- 3)],
           day_of 2 True [item ''Drinks'' ''P1'' ''Water'' (- 3) 0 0 0 (- 3)]]"
proof -
  have "\<not> length oversold_sheet < 2"
    by (simp add: oversold_sheet_def)
  then show ?thesis
    by (simp add: processData_def all_days_oversold_sheet day_filter_def day_of_def)
qed

lemma processData_negative_opening_sheet:
  "processData negative_opening_sheet =
     Some [day_of 1 True [item ''Drinks'' ''P1'' ''Water'' 0 3 0 0 3]]"
proof -
  have "\<not> length negative_opening_sheet < 2"
    by (simp add: negative_opening_sheet_def)
  then show ?thesis
    by (simp add: processData_def all_days_negative_opening_sheet day_filter_def day_of_def)
qed


lemma processData_gap_sheet:
  "processData gap_sheet =
     Some [day_of 1 True [item ''Drinks'' ''P1'' ''Water'' 0 5 5 0 0],
           day_of 3 True [item ''Drinks'' ''P1'' ''Water'' 0 3 0 0 3]]"
proof -
  have "\<not> length gap_sheet < 2"
    by (simp add: gap_sheet_def)
  then show ?thesis
    by (simp add: processData_def all_days_gap_sheet day_filter_def day_of_def)
qed

lemma processData_twin_sheet:
  "processData twin_sheet =
     Some [day_of 1 True [item ''Drinks'' ''P1'' ''Water'' 0 5 0 0 5,
                           item ''Drinks'' ''P1'' ''Water 2'' 5 1 0 0 6],
           day_of 2 True [item ''Drinks'' ''P1'' ''Water'' 6 0 0 0 6,
                           item ''Drinks'' ''P1'' ''Water 2'' 6 0 0 0 6]]"
proof -
  have "\<not> length twin_sheet < 2"
    by (simp add: twin_sheet_def)
  then show ?thesis
    by (simp add: processData_def all_days_twin_sheet day_filter_def day_of_def)
qed

lemma processData_twin_seed_sheet:
  "processData twin_seed_sheet =
     Some [day_of 1 True [item ''Drinks'' ''P1'' ''Water'' 0 3 3 0 0,
                           item ''Drinks'' ''P1'' ''Water 2'' 7 0 0 0 7]]"
proof -
  have "\<not> length twin_seed_sheet < 2"
    by (simp add: twin_seed_sheet_def)
  then show ?thesis
    by (simp add: processData_def all_days_twin_seed_sheet day_filter_def day_of_def)
qed

lemma all_days_infinite_sheet:
  "all_days infinite_sheet =
     [day_of 1 True [item ''Drinks'' ''P1'' ''Water'' 0 2 0 0 2,
                     item ''Drinks'' ''P1'' ''Water 2'' 2 0 0 0 2],
      day_of 2 True
        [item_of ''Drinks'' ''P1'' ''Water'' (Num (Fin 2)) PInf PInf (Fin 0) NaN,
         item ''Drinks'' ''P1'' ''Water 2'' 0 0 0 0 0]]"
  by (simp add: infinite_sheet_def sheet_defs pipeline_defs header_defs string_defs)

lemma processData_infinite_sheet:
  "processData infinite_sheet =
     Some [day_of 1 True [item ''Drinks'' ''P1'' ''Water'' 0 2 0 0 2,
                     item ''Drinks'' ''P1'' ''Water 2'' 2 0 0 0 2],
      day_of 2 True
        [item_of ''Drinks'' ''P1'' ''Water'' (Num (Fin 2)) PInf PInf (Fin 0) NaN,
         item ''Drinks'' ''P1'' ''Water 2'' 0 0 0 0 0]]"
proof -
  have "\<not> length infinite_sheet < 2"
    by (simp add: infinite_sheet_def)
  then show ?thesis
    by (simp add: processData_def all_days_infinite_sheet day_filter_def day_of_def)
qed

lemma all_days_decimal_sheet:
  "all_days decimal_sheet =
     [day_of 1 True
             [item_of ''Drinks'' ''P1'' ''Water''
                (Num (Fin (3602879701896397 / 36028797018963968)))
                (Fin (3602879701896397 / 18014398509481984))
                (Fin (5404319552844595 / 18014398509481984)) (Fin 0)
                (Fin (1 / 18014398509481984))],
           day_of 2 True
             [item_of ''Drinks'' ''P1'' ''Water''
                (Num (Fin (1 / 18014398509481984))) (Fin 0) (Fin 0) (Fin 0)
                (Fin (1 / 18014398509481984))]]"
  by (simp add: decimal_sheet_def sheet_defs pipeline_defs header_defs string_defs round_defs)

lemma processData_decimal_sheet:
  "processData decimal_sheet =
     Some [day_of 1 True
             [item_of ''Drinks'' ''P1'' ''Water''
                (Num (Fin (3602879701896397 / 36028797018963968)))
                (Fin (3602879701896397 / 18014398509481984))
                (Fin (5404319552844595 / 18014398509481984)) (Fin 0)
                (Fin (1 / 18014398509481984))],
           day_of 2 True
             [item_of ''Drinks'' ''P1'' ''Water''
                (Num (Fin (1 / 18014398509481984))) (Fin 0) (Fin 0) (Fin 0)
                (Fin (1 / 18014398509481984))]]"
proof -
  have "\<not> length decimal_sheet < 2"
    by (simp add: decimal_sheet_def)
  then show ?thesis
    by (simp add: processData_def all_days_decimal_sheet day_filter_def day_of_def)
qed

lemma all_days_constructor_sheet:
  "all_days constructor_sheet =
     [day_of 1 True
             [item_of ''Drinks'' ''constructor'' ''Water'' ProtoMember (Fin 5) (Fin 0) (Fin 0) NaN],
           day_of 2 True [item ''Drinks'' ''constructor'' ''Water'' 0 1 0 0 1]]"
  by (simp add: constructor_sheet_def sheet_defs pipeline_defs header_defs string_defs)

lemma processData_constructor_sheet:
  "processData constructor_sheet =
     Some [day_of 1 True
             [item_of ''Drinks'' ''constructor'' ''Water'' ProtoMember (Fin 5) (Fin 0) (Fin 0) NaN],
           day_of 2 True [item ''Drinks'' ''constructor'' ''Water'' 0 1 0 0 1]]"
proof -
  have "\<not> length constructor_sheet < 2"
    by (simp add: constructor_sheet_def)
  then show ?thesis
    by (simp add: processData_def all_days_constructor_sheet day_filter_def day_of_def)
qed

lemma all_days_proto_sheet:
  "all_days proto_sheet =
     [day_of 1 True
             [item_of ''Drinks'' ''__proto__'' ''Water'' ProtoMember (Fin 5) (Fin 0) (Fin 0) NaN],
           day_of 2 True
             [item_of ''Drinks'' ''__proto__'' ''Water'' ProtoMember (Fin 1) (Fin 0) (Fin 0) NaN]]"
  by (simp add: proto_sheet_def sheet_defs pipeline_defs header_defs string_defs)

lemma processData_proto_sheet:
  "processData proto_sheet =
     Some [day_of 1 True
             [item_of ''Drinks'' ''__proto__'' ''Water'' ProtoMember (Fin 5) (Fin 0) (Fin 0) NaN],
           day_of 2 True
             [item_of ''Drinks'' ''__proto__'' ''Water'' ProtoMember (Fin 1) (Fin 0) (Fin 0) NaN]]"
proof -
  have "\<not> length proto_sheet < 2"
    by (simp add: proto_sheet_def)
  then show ?thesis
    by (simp add: processData_def all_days_proto_sheet day_filter_def day_of_def)
qed

lemma all_days_proto_twin_sheet:
  "all_days proto_twin_sheet =
     [day_of 1 True
             [item_of ''Drinks'' ''__proto__'' ''Water'' ProtoMember (Fin 5) (Fin 0) (Fin 0) NaN,
              item_of ''Drinks'' ''__proto__'' ''Water 2'' ProtoMember (Fin 2) (Fin 0) (Fin 0) NaN],
           day_of 2 True
             [item_of ''Drinks'' ''__proto__'' ''Water'' ProtoMember (Fin 1) (Fin 0) (Fin 0) NaN,
              item_of ''Drinks'' ''__proto__'' ''Water 2'' ProtoMember (Fin 0) (Fin 0) (Fin 0) NaN]]"
  by (simp add: proto_twin_sheet_def sheet_defs pipeline_defs header_defs string_defs)

lemma processData_proto_twin_sheet:
  "processData proto_twin_sheet =
     Some [day_of 1 True
             [item_of ''Drinks'' ''__proto__'' ''Water'' ProtoMember (Fin 5) (Fin 0) (Fin 0) NaN,
              item_of ''Drinks'' ''__proto__'' ''Water 2'' ProtoMember (Fin 2) (Fin 0) (Fin 0) NaN],
           day_of 2 True
             [item_of ''Drinks'' ''__proto__'' ''Water'' ProtoMember (Fin 1) (Fin 0) (Fin 0) NaN,
              item_of ''Drinks'' ''__proto__'' ''Water 2'' ProtoMember (Fin 0) (Fin 0) (Fin 0) NaN]]"
proof -
  have "\<not> length proto_twin_sheet < 2"
    by (simp add: proto_twin_sheet_def)
  then show ?thesis
    by (simp add: processData_def all_days_proto_twin_sheet day_filter_def day_of_def)
qed

lemma all_days_double_seed_sheet:
  "all_days double_seed_sheet =
     [day_of 1 True [item ''Drinks'' ''P1'' ''Water'' 10 0 10 0 0,
                           item ''Drinks'' ''P1'' ''Water 2'' 7 0 0 0 7]]"
  by (simp add: double_seed_sheet_def sheet_defs pipeline_defs header_defs string_defs)

lemma processData_double_seed_sheet:
  "processData double_seed_sheet =
     Some [day_of 1 True [item ''Drinks'' ''P1'' ''Water'' 10 0 10 0 0,
                           item ''Drinks'' ''P1'' ''Water 2'' 7 0 0 0 7]]"
proof -
  have "\<not> length double_seed_sheet < 2"
    by (simp add: double_seed_sheet_def)
  then show ?thesis
    by (simp add: processData_def all_days_double_seed_sheet day_filter_def day_of_def)
qed

section \<open>The output of processData, record by record\<close>

lemma all_days_nth:
  assumes "k < length (all_days data)"
  shows "dayNum (all_days data ! k) = Suc k"
    and "products (all_days data ! k) =
           snd (snd (row_loop (Suc k) (hd data)
             (carry_after Map.empty (earlier_records (all_days data) k)) (tl data)))"
proof -
  define days where "days = [1..<Suc (nat (maxDays (length (hd data))))]"
  have ad: "all_days data = day_loop (hd data) (tl data) Map.empty days"
    by (simp add: all_days_def Let_def days_def)
  have k: "k < length days"
    using assms by (simp add: ad length_day_loop)
  then have nth: "days ! k = Suc k"
    unfolding days_def by (simp del: upt_Suc)
  have "map dayNum (all_days data) ! k = Suc k"
    using nth by (simp add: ad dayNum_day_loop)
  then show "dayNum (all_days data ! k) = Suc k"
    using assms by simp
  show "products (all_days data ! k) =
           snd (snd (row_loop (Suc k) (hd data)
             (carry_after Map.empty (earlier_records (all_days data) k)) (tl data)))"
    using day_loop_nth[OF k, of "hd data" "tl data" Map.empty] nth
    by (simp only: ad[symmetric])
qed

lemma record_at:
  assumes "k < length (all_days data)" and "i < length (products (all_days data ! k))"
  shows "products (all_days data ! k) ! i =
           snd (process_row (Suc k) (hd data)
                  (carry_after Map.empty
                     (earlier_records (all_days data) k @ take i (products (all_days data ! k))))
                  (filter valid_row (tl data) ! i))"
    and "i < length (filter valid_row (tl data))"
proof -
  note ps = all_days_nth(2)[OF assms(1)]
  show i: "i < length (filter valid_row (tl data))"
    using assms(2) by (simp add: ps row_loop_length)
  show "products (all_days data ! k) ! i =
           snd (process_row (Suc k) (hd data)
                  (carry_after Map.empty
                     (earlier_records (all_days data) k @ take i (products (all_days data ! k))))
                  (filter valid_row (tl data) ! i))"
    using row_loop_nth[OF i, of "Suc k" "hd data"
        "carry_after Map.empty (earlier_records (all_days data) k)"]
    by (simp only: ps[symmetric] carry_after_append)
qed

lemma set_day_filter: "set (day_filter store) \<subseteq> set store"
  by (auto simp: day_filter_def Let_def)

lemma processData_mem:
  assumes "processData data = Some out" and "dr \<in> set out"
  shows "\<exists>k<length (all_days data). dr = all_days data ! k"
proof -
  have "out = day_filter (all_days data)"
    using assms(1) by (simp add: processData_def split: if_splits)
  then have "dr \<in> set (all_days data)"
    using assms(2) set_day_filter by auto
  then show ?thesis
    by (auto simp: in_set_conv_nth)
qed

lemma processData_record:
  assumes "processData data = Some out" and "dr \<in> set out" and "p \<in> set (products dr)"
  shows "\<exists>m r. valid_row r \<and> r \<in> set (tl data) \<and> p = snd (process_row (dayNum dr) (hd data) m r)"
proof -
  obtain k where k: "k < length (all_days data)" "dr = all_days data ! k"
    using processData_mem[OF assms(1,2)] by auto
  obtain i where i: "i < length (products dr)" "p = products dr ! i"
    using assms(3) by (auto simp: in_set_conv_nth)
  have il: "i < length (filter valid_row (tl data))"
    using record_at(2)[OF k(1)] i(1) k(2) by simp
  then have "filter valid_row (tl data) ! i \<in> set (filter valid_row (tl data))"
    by (rule nth_mem)
  then have "valid_row (filter valid_row (tl data) ! i) \<and> filter valid_row (tl data) ! i \<in> set (tl data)"
    by simp
  moreover have "p = snd (process_row (dayNum dr) (hd data)
                  (carry_after Map.empty
                     (earlier_records (all_days data) k @ take i (products (all_days data ! k))))
                  (filter valid_row (tl data) ! i))"
    using record_at(1)[OF k(1), of i] i k all_days_nth(1)[OF k(1)] by simp
  ultimately show ?thesis by blast
qed

section \<open>The cell normalizer: totality and rules\<close>

lemma trim_all_ws: "\<forall>c\<in>set s. is_ws c \<Longrightarrow> trim s = []"
  unfolding trim_def by (auto dest: set_dropWhileD)

lemma set_trim: "set (trim s) \<subseteq> set s"
proof -
  have "set (dropWhile is_ws (rev (dropWhile is_ws s))) \<subseteq> set (rev (dropWhile is_ws s))"
    by (auto dest: set_dropWhileD)
  also have "\<dots> \<subseteq> set s"
    by (auto dest: set_dropWhileD)
  finally show ?thesis
    by (simp add: trim_def)
qed

lemma trim_idem: "trim (trim s) = trim s"
proof -
  define a where "a = dropWhile is_ws s"
  define b where "b = dropWhile is_ws (rev a)"
  have dec: "rev a = takeWhile is_ws (rev a) @ b"
    by (simp add: b_def)
  have "dropWhile is_ws (rev b) = rev b"
  proof (cases "b = []")
    case True
    then show ?thesis by simp
  next
    case False
    then have ne: "a \<noteq> []"
      using dec by auto
    have "last b = last (rev a)"
      using dec False by (metis last_appendR)
    also have "\<dots> = hd a"
      using ne by (simp add: last_rev)
    finally have "hd (rev b) = hd a"
      using False by (simp add: hd_rev)
    moreover have "\<not> is_ws (hd a)"
      using ne unfolding a_def by (rule hd_dropWhile)
    ultimately show ?thesis
      by (simp add: dropWhile_eq_self_iff)
  qed
  moreover have "dropWhile is_ws b = b"
    by (simp add: b_def)
  ultimately show ?thesis
    by (simp add: trim_def a_def[symmetric] b_def[symmetric])
qed

lemma remove_commas_trim: "remove_commas (trim (remove_commas s)) = trim (remove_commas s)"
  unfolding remove_commas_def using set_trim[of "filter (\<lambda>c. c \<noteq> 44) s"]
  by (auto simp: filter_id_conv)

lemma clean_str_idem: "clean_str (clean_str s) = clean_str s"
  by (simp add: clean_str_def remove_commas_trim trim_idem)

lemma clean_str_Nil: "clean_str [] = []"
  by (simp add: clean_str_def trim_def remove_commas_def)

lemma cleanNumber_not_NaN: "cleanNumber v \<noteq> NaN"
  by (cases v) (auto simp: truthy_def Let_def)

lemma cleanNumber_Number_idem: "cleanNumber (Number (cleanNumber v)) = cleanNumber v"
  using cleanNumber_not_NaN[of v] by (auto simp: truthy_def)

lemma cleanNumber_clean_str: "cleanNumber (Str (clean_str t)) = cleanNumber (Str t)"
proof (cases "clean_str t = []")
  case True
  then show ?thesis by simp
next
  case False
  then have "t \<noteq> []"
    using clean_str_Nil by auto
  with False show ?thesis
    by (simp add: Let_def clean_str_idem)
qed

text \<open>
  C8. \<^verbatim>\<open>cleanNumber\<close> returns a number on every cell, never \<open>NaN\<close>: an absent cell, a cell
  of white space only (the empty cell included) and a lone \<^verbatim>\<open>-\<close> give 0, \<^verbatim>\<open>1,234\<close>
  gives 1234, \<^verbatim>\<open>abc\<close> gives 0. Normalizing a normalized number returns it, and
  normalizing an already cleaned string (commas removed, trimmed) gives what the original
  string gives.
\<close>

theorem cleanNumber_total:
  "cleanNumber v \<noteq> NaN
   \<and> cleanNumber Undefined = Fin 0
   \<and> ((\<forall>c\<in>set s. is_ws c) \<longrightarrow> cleanNumber (Str s) = Fin 0)
   \<and> cleanNumber (Str (ascii ''-'')) = Fin 0
   \<and> cleanNumber (Str (ascii ''1,234'')) = Fin 1234
   \<and> cleanNumber (Str (ascii ''abc'')) = Fin 0
   \<and> cleanNumber (Number (cleanNumber v)) = cleanNumber v
   \<and> cleanNumber (Str (clean_str t)) = cleanNumber (Str t)"
proof -
  have ws: "(\<forall>c\<in>set s. is_ws c) \<longrightarrow> cleanNumber (Str s) = Fin 0"
    by (simp add: clean_str_def Let_def trim_all_ws remove_commas_def)
  have dash: "cleanNumber (Str (ascii ''-'')) = Fin 0"
    by (simp add: string_defs)
  have sep: "cleanNumber (Str (ascii ''1,234'')) = Fin 1234"
    by (simp add: string_defs)
  have abc: "cleanNumber (Str (ascii ''abc'')) = Fin 0"
    by (simp add: string_defs)
  show ?thesis
    using ws dash sep abc cleanNumber_not_NaN cleanNumber_Number_idem cleanNumber_clean_str
    by simp
qed

theorem cleanNumber_total_witness:
  "list_all is_ws (ascii ''  '')
   \<and> cleanNumber (Str (ascii ''  '')) = Fin 0
   \<and> cleanNumber (Str (ascii '' 1,234.5 '')) = Fin (2469 / 2)
   \<and> cleanNumber (Number (cleanNumber (Str (ascii '' 1,234.5 '')))) = Fin (2469 / 2)
   \<and> cleanNumber (Str (clean_str (ascii '' 1,234.5 ''))) = Fin (2469 / 2)"
proof -
  have a: "\<forall>c\<in>set (ascii ''  ''). is_ws c"
    by (simp add: ascii_def is_ws_def)
  have b: "cleanNumber (Str (ascii '' 1,234.5 '')) = Fin (2469 / 2)"
    by (simp add: string_defs round_defs)
  show ?thesis
    using a b cleanNumber_total [of "Str (ascii '' 1,234.5 '')" "ascii ''  ''" "ascii '' 1,234.5 ''"]
    by (simp add: list_all_iff)
qed

section \<open>The number of day blocks\<close>

lemma maxDays_floor: "maxDays n = max 1 (min 31 \<lfloor>(of_int (int n - 8) :: rat) / 8\<rfloor>)"
proof -
  have "\<lfloor>(of_int (int n - 8) :: rat) / 8\<rfloor> = (int n - 8) div 8"
    using floor_divide_of_int_eq[of "int n - 8" 8, where ?'a = rat] by simp
  then show ?thesis
    by (simp add: maxDays_def Let_def max_def min_def)
qed

text \<open>
  C6, as the code has it. The number of day blocks is \<open>floor ((totalColumns - 8) / 8)\<close>
  clamped to the range 1 to 31, and that many days are processed; 8 columns give 1 day,
  16 columns give 1 day, 24 columns give 2 days, 100 columns give 11 days and 5 columns
  give 1 day.
\<close>

theorem maxDays_clamped:
  "maxDays n = max 1 (min 31 \<lfloor>(of_int (int n - 8) :: rat) / 8\<rfloor>)
   \<and> (2 \<le> length data \<longrightarrow> length (all_days data) = nat (maxDays (length (hd data))))
   \<and> maxDays 8 = 1 \<and> maxDays 16 = 1 \<and> maxDays 24 = 2 \<and> maxDays 100 = 11 \<and> maxDays 5 = 1"
proof -
  have "length (all_days data) = nat (maxDays (length (hd data)))"
    by (simp add: all_days_def Let_def length_day_loop)
  moreover have "maxDays 8 = 1 \<and> maxDays 16 = 1 \<and> maxDays 24 = 2 \<and> maxDays 100 = 11 \<and> maxDays 5 = 1"
    by (simp add: maxDays_def)
  ultimately show ?thesis
    using maxDays_floor by simp
qed

theorem maxDays_clamped_witness:
  "2 \<le> length scenario_sheet \<and> length (hd scenario_sheet) = 24 \<and> maxDays 24 = 2
   \<and> length (all_days scenario_sheet) = 2"
proof -
  have "2 \<le> length scenario_sheet \<and> length (hd scenario_sheet) = 24"
    by (simp add: scenario_sheet_def sheet_defs)
  then show ?thesis
    using maxDays_clamped [of 24 scenario_sheet] by simp
qed

text \<open>
  C6 as stated gives 2 days for 16 columns. Sixteen columns are the eight identity columns
  and one block of eight: the count is 1.
\<close>

theorem maxDays_16_counterexample: "maxDays 16 = 1 \<and> maxDays 16 \<noteq> 2"
  by (simp add: maxDays_def)

section \<open>Conservation of stock\<close>

lemma remain_of_int:
  assumes "\<bar>b\<bar> < 2 ^ 51" and "\<bar>r\<bar> < 2 ^ 51" and "\<bar>s\<bar> < 2 ^ 51" and "\<bar>w\<bar> < 2 ^ 51"
  shows "remain_of (Num (Fin (of_int b))) (Fin (of_int r)) (Fin (of_int s)) (Fin (of_int w))
         = Fin (of_int (b + r - s - w))"
proof -
  have "\<bar>b + r\<bar> < 2 ^ 53"
    using assms by simp
  then have 1: "js_add (Fin (of_int b)) (Fin (of_int r)) = Fin (of_int (b + r))"
    by (rule js_add_int)
  have "\<bar>b + r - s\<bar> < 2 ^ 53"
    using assms by simp
  then have 2: "js_sub (Fin (of_int (b + r))) (Fin (of_int s)) = Fin (of_int (b + r - s))"
    by (rule js_sub_int)
  have "\<bar>b + r - s - w\<bar> < 2 ^ 53"
    using assms by simp
  then have 3: "js_sub (Fin (of_int (b + r - s))) (Fin (of_int w)) = Fin (of_int (b + r - s - w))"
    by (rule js_sub_int)
  show ?thesis
    by (simp only: remain_of_def jsfield.case 1 2 3)
qed

lemma spec_remain_int:
  assumes "broughtForward p = Num (Fin (of_int b))" and "received p = Fin (of_int r)"
    and "sold p = Fin (of_int s)" and "waste p = Fin (of_int w)"
  shows "spec_remain p = Some (of_int (b + r - s - w))"
  using assms by (simp add: spec_remain_def)

lemma process_row_proto:
  assumes "broughtForward (snd (process_row d row1 m r)) = ProtoMember"
  shows "code (snd (process_row d row1 m r)) \<in> set proto_keys"
proof -
  obtain m' where "or_zero (carry_get m' (r ! 2)) = ProtoMember"
    using assms by (auto simp: process_row_def Let_def split: prod.splits)
  then show ?thesis
    by (auto simp: process_row_ident or_zero_def carry_get_def
        split: option.splits jsfield.splits if_splits)
qed

text \<open>
  C1. In every record that \<^verbatim>\<open>processData\<close> emits, on every day, the remain is
  \<^verbatim>\<open>broughtForward + received - sold - waste\<close> as the source computes it. When the
  brought-forward is a number, that is the sum and the two differences taken from left to
  right in double arithmetic, each one rounded; it is the exact balance when the four
  figures are integers below \<open>2 ^ 51\<close> in magnitude, negative when the figures make it so.
  The brought-forward is not a number only for a product code that names a property of
  \<^verbatim>\<open>Object.prototype\<close>, and then the remain is \<open>NaN\<close>.
\<close>

theorem remain_equation:
  assumes "processData data = Some out" and "dr \<in> set out" and "p \<in> set (products dr)"
  shows "remain p = remain_of (broughtForward p) (received p) (sold p) (waste p)
     \<and> (\<forall>b. broughtForward p = Num b
           \<longrightarrow> remain p = js_sub (js_sub (js_add b (received p)) (sold p)) (waste p))
     \<and> (\<forall>b r s w. broughtForward p = Num (Fin (of_int b)) \<and> received p = Fin (of_int r)
             \<and> sold p = Fin (of_int s) \<and> waste p = Fin (of_int w)
             \<and> \<bar>b\<bar> < 2 ^ 51 \<and> \<bar>r\<bar> < 2 ^ 51 \<and> \<bar>s\<bar> < 2 ^ 51 \<and> \<bar>w\<bar> < 2 ^ 51
           \<longrightarrow> remain p = Fin (of_int (b + r - s - w))
               \<and> spec_remain p = Some (of_int (b + r - s - w)))
     \<and> (broughtForward p = ProtoMember \<longrightarrow> code p \<in> set proto_keys \<and> remain p = NaN)"
proof -
  obtain m r where p: "p = snd (process_row (dayNum dr) (hd data) m r)"
    using processData_record[OF assms] by blast
  then have eq: "remain p = remain_of (broughtForward p) (received p) (sold p) (waste p)"
    using process_row_remain by simp
  have num: "\<forall>b. broughtForward p = Num b
           \<longrightarrow> remain p = js_sub (js_sub (js_add b (received p)) (sold p)) (waste p)"
    using eq by (simp add: remain_of_def)
  have int: "\<forall>b r s w. broughtForward p = Num (Fin (of_int b)) \<and> received p = Fin (of_int r)
             \<and> sold p = Fin (of_int s) \<and> waste p = Fin (of_int w)
             \<and> \<bar>b\<bar> < 2 ^ 51 \<and> \<bar>r\<bar> < 2 ^ 51 \<and> \<bar>s\<bar> < 2 ^ 51 \<and> \<bar>w\<bar> < 2 ^ 51
           \<longrightarrow> remain p = Fin (of_int (b + r - s - w))
               \<and> spec_remain p = Some (of_int (b + r - s - w))"
    using eq remain_of_int spec_remain_int by metis
  have proto: "broughtForward p = ProtoMember \<longrightarrow> code p \<in> set proto_keys \<and> remain p = NaN"
    using eq process_row_proto[of "dayNum dr" "hd data" m r] p by (simp add: remain_of_def)
  show ?thesis
    by (intro conjI) (fact eq num int proto)+
qed

theorem remain_equation_witness:
  "processData oversold_sheet =
     Some [day_of 1 True [item ''Drinks'' ''P1'' ''Water'' 0 2 5 0 (- 3)],
           day_of 2 True [item ''Drinks'' ''P1'' ''Water'' (- 3) 0 0 0 (- 3)]]
   \<and> remain (item ''Drinks'' ''P1'' ''Water'' 0 2 5 0 (- 3)) = Fin (of_int (0 + 2 - 5 - 0))
   \<and> spec_remain (item ''Drinks'' ''P1'' ''Water'' 0 2 5 0 (- 3)) = Some (of_int (0 + 2 - 5 - 0))
   \<and> remain (item ''Drinks'' ''P1'' ''Water'' (- 3) 0 0 0 (- 3)) = Fin (of_int (- 3 + 0 - 0 - 0))
   \<and> processData constructor_sheet =
     Some [day_of 1 True
             [item_of ''Drinks'' ''constructor'' ''Water'' ProtoMember (Fin 5) (Fin 0) (Fin 0) NaN],
           day_of 2 True [item ''Drinks'' ''constructor'' ''Water'' 0 1 0 0 1]]
   \<and> ascii ''constructor'' \<in> set proto_keys
   \<and> remain (item_of ''Drinks'' ''constructor'' ''Water'' ProtoMember (Fin 5) (Fin 0) (Fin 0) NaN)
       = remain_of ProtoMember (Fin 5) (Fin 0) (Fin 0)"
proof -
  note ev = processData_oversold_sheet
  note ec = processData_constructor_sheet
  have d1: "remain (item ''Drinks'' ''P1'' ''Water'' 0 2 5 0 (- 3)) = Fin (of_int (0 + 2 - 5 - 0))
      \<and> spec_remain (item ''Drinks'' ''P1'' ''Water'' 0 2 5 0 (- 3)) = Some (of_int (0 + 2 - 5 - 0))"
    using remain_equation [OF ev, of "day_of 1 True [item ''Drinks'' ''P1'' ''Water'' 0 2 5 0 (- 3)]"
        "item ''Drinks'' ''P1'' ''Water'' 0 2 5 0 (- 3)",
        THEN conjunct2, THEN conjunct2, THEN conjunct1, rule_format, of 0 2 5 0]
    by (simp add: day_of_def item_def)
  have d2: "remain (item ''Drinks'' ''P1'' ''Water'' (- 3) 0 0 0 (- 3)) = Fin (of_int (- 3 + 0 - 0 - 0))"
    using remain_equation [OF ev, of "day_of 2 True [item ''Drinks'' ''P1'' ''Water'' (- 3) 0 0 0 (- 3)]"
        "item ''Drinks'' ''P1'' ''Water'' (- 3) 0 0 0 (- 3)",
        THEN conjunct2, THEN conjunct2, THEN conjunct1, rule_format, of "- 3" 0 0 0]
    by (simp add: day_of_def item_def)
  have d3: "ascii ''constructor'' \<in> set proto_keys
      \<and> remain (item_of ''Drinks'' ''constructor'' ''Water'' ProtoMember (Fin 5) (Fin 0) (Fin 0) NaN)
          = remain_of ProtoMember (Fin 5) (Fin 0) (Fin 0)"
    using remain_equation [OF ec,
        of "day_of 1 True
             [item_of ''Drinks'' ''constructor'' ''Water'' ProtoMember (Fin 5) (Fin 0) (Fin 0) NaN]"
           "item_of ''Drinks'' ''constructor'' ''Water'' ProtoMember (Fin 5) (Fin 0) (Fin 0) NaN"]
    by (simp add: day_of_def item_of_def)
  show ?thesis
    using ev ec d1 d2 d3 by simp
qed

text \<open>
  The balance is not exact in general. On the sheet whose cells are \<^verbatim>\<open>0.1\<close>
  (brought forward), \<^verbatim>\<open>0.2\<close> (received) and \<^verbatim>\<open>0.3\<close> (sold), the emitted figures
  are the doubles nearest to these decimals; their exact balance is \<open>1 / 2 ^ 55\<close>, the
  emitted remain is \<open>1 / 2 ^ 54\<close>, and it is carried into day 2, which has data because
  of it.
\<close>

theorem rounded_remain_counterexample:
  "processData decimal_sheet =
     Some [day_of 1 True
             [item_of ''Drinks'' ''P1'' ''Water''
                (Num (Fin (3602879701896397 / 36028797018963968)))
                (Fin (3602879701896397 / 18014398509481984))
                (Fin (5404319552844595 / 18014398509481984)) (Fin 0)
                (Fin (1 / 18014398509481984))],
           day_of 2 True
             [item_of ''Drinks'' ''P1'' ''Water''
                (Num (Fin (1 / 18014398509481984))) (Fin 0) (Fin 0) (Fin 0)
                (Fin (1 / 18014398509481984))]]
   \<and> spec_remain (item_of ''Drinks'' ''P1'' ''Water''
                (Num (Fin (3602879701896397 / 36028797018963968)))
                (Fin (3602879701896397 / 18014398509481984))
                (Fin (5404319552844595 / 18014398509481984)) (Fin 0)
                (Fin (1 / 18014398509481984))) = Some (1 / 36028797018963968)
   \<and> remain (item_of ''Drinks'' ''P1'' ''Water''
                (Num (Fin (3602879701896397 / 36028797018963968)))
                (Fin (3602879701896397 / 18014398509481984))
                (Fin (5404319552844595 / 18014398509481984)) (Fin 0)
                (Fin (1 / 18014398509481984))) = Fin (1 / 18014398509481984)
   \<and> Fin (1 / 18014398509481984) \<noteq> Fin (1 / 36028797018963968)"
  by (simp add: processData_decimal_sheet) (simp add: item_of_def spec_remain_def)

section \<open>Signs of the figures\<close>

lemma nonneg_iff: "nonneg n \<longleftrightarrow> (case n of Fin q \<Rightarrow> 0 \<le> q | PInf \<Rightarrow> True | _ \<Rightarrow> False)"
  by (cases n) (auto simp: nonneg_def)

lemma nonneg_abs_cleanNumber: "nonneg (js_abs (cleanNumber v))"
  using cleanNumber_not_NaN[of v] by (cases "cleanNumber v") (simp_all add: nonneg_iff)

lemma nonneg_max: "nonneg a \<Longrightarrow> nonneg b \<Longrightarrow> nonneg (js_max a b)"
  by (cases a; cases b) (simp_all add: nonneg_iff js_max_def)

lemma round_half_even_nonneg: "0 \<le> x \<Longrightarrow> 0 \<le> round_half_even x"
proof -
  assume "0 \<le> x"
  then have "0 \<le> \<lfloor>x\<rfloor>" by simp
  then show ?thesis
    by (simp add: round_half_even_def Let_def)
qed

lemma pow2_pos: "0 < pow2 e"
  by (simp add: pow2_def)

lemma round_double_nonneg: "0 \<le> q \<Longrightarrow> nonneg (round_double q)"
proof (cases "q = 0")
  case True
  then show ?thesis by (simp add: round_double_def nonneg_iff)
next
  case False
  assume "0 \<le> q"
  with False have q: "0 < q" by simp
  define e where "e = max (floor_log2 q - 52) (- 1074)"
  have "0 \<le> q / pow2 e"
    using pow2_pos[of e] q by simp
  then have "0 \<le> round_half_even (q / pow2 e)"
    by (rule round_half_even_nonneg)
  then have "0 \<le> of_int (round_half_even (q / pow2 e)) * pow2 e"
    using pow2_pos[of e] by simp
  then show ?thesis
    using q by (simp add: round_double_def Let_def e_def[symmetric] nonneg_iff)
qed

lemma nonneg_add:
  assumes "nonneg a" and "nonneg b"
  shows "nonneg (js_add a b)"
proof (cases a; cases b)
  fix x y
  assume ab: "a = Fin x" "b = Fin y"
  then have "0 \<le> x + y"
    using assms by (simp add: nonneg_iff)
  then have "nonneg (round_double (x + y))"
    by (rule round_double_nonneg)
  then show ?thesis
    using ab by simp
qed (use assms in \<open>simp_all add: nonneg_iff\<close>)

lemma column_step_nonneg:
  "figures_nonneg acc \<Longrightarrow> figures_nonneg (column_step row1 r s acc c)"
  by (cases acc; cases "column_role (header_at row1 (s + c))")
     (simp_all add: figures_nonneg_def column_step_def Let_def nonneg_max nonneg_add
        nonneg_abs_cleanNumber)

lemma foldl_column_step_nonneg:
  "figures_nonneg acc \<Longrightarrow> figures_nonneg (foldl (column_step row1 r s) acc cs)"
  by (induction cs arbitrary: acc) (simp_all add: column_step_nonneg)

lemma extract_block_nonneg: "figures_nonneg (extract_block row1 r s)"
  unfolding extract_block_def
  by (rule foldl_column_step_nonneg) (simp add: figures_nonneg_def nonneg_iff)

lemma process_row_nonneg:
  "nonneg (received (snd (process_row d row1 m r)))
   \<and> nonneg (sold (snd (process_row d row1 m r)))
   \<and> nonneg (waste (snd (process_row d row1 m r)))"
  using extract_block_nonneg[of row1 r "8 + (d - 1) * 8"]
  by (simp add: process_row_snd Let_def figures_nonneg_def)

text \<open>
  C9. In every record that \<^verbatim>\<open>processData\<close> emits, received, sold and waste are at
  least zero (and are numbers), whatever the signs of the cells; brought-forward and remain
  can be negative, as they are for the product that sells more than it has.
\<close>

theorem movement_figures_nonneg:
  assumes "processData data = Some out" and "dr \<in> set out" and "p \<in> set (products dr)"
  shows "nonneg (received p) \<and> nonneg (sold p) \<and> nonneg (waste p)
     \<and> (\<exists>data' out' dr' p'. processData data' = Some out' \<and> dr' \<in> set out' \<and> p' \<in> set (products dr')
           \<and> (\<exists>b. broughtForward p' = Num b \<and> js_lt b (Fin 0)) \<and> js_lt (remain p') (Fin 0))"
proof -
  obtain m r where "p = snd (process_row (dayNum dr) (hd data) m r)"
    using processData_record[OF assms] by blast
  then have "nonneg (received p) \<and> nonneg (sold p) \<and> nonneg (waste p)"
    using process_row_nonneg by simp
  moreover have "\<exists>data' out' dr' p'. processData data' = Some out' \<and> dr' \<in> set out' \<and> p' \<in> set (products dr')
           \<and> (\<exists>b. broughtForward p' = Num b \<and> js_lt b (Fin 0)) \<and> js_lt (remain p') (Fin 0)"
    apply (rule exI[of _ oversold_sheet])
    apply (rule exI[of _ "[day_of 1 True [item ''Drinks'' ''P1'' ''Water'' 0 2 5 0 (- 3)],
           day_of 2 True [item ''Drinks'' ''P1'' ''Water'' (- 3) 0 0 0 (- 3)]]"])
    apply (rule exI[of _ "day_of 2 True [item ''Drinks'' ''P1'' ''Water'' (- 3) 0 0 0 (- 3)]"])
    apply (rule exI[of _ "item ''Drinks'' ''P1'' ''Water'' (- 3) 0 0 0 (- 3)"])
    apply (simp add: processData_oversold_sheet)
    apply (simp add: day_of_def item_def)
    done
  ultimately show ?thesis by simp
qed

theorem movement_figures_nonneg_witness:
  "processData oversold_sheet =
     Some [day_of 1 True [item ''Drinks'' ''P1'' ''Water'' 0 2 5 0 (- 3)],
           day_of 2 True [item ''Drinks'' ''P1'' ''Water'' (- 3) 0 0 0 (- 3)]]
   \<and> cleanNumber (Str (ascii ''-2'')) = Fin (- 2)
   \<and> cleanNumber (Str (ascii ''-5'')) = Fin (- 5)
   \<and> nonneg (received (item ''Drinks'' ''P1'' ''Water'' 0 2 5 0 (- 3)))
   \<and> nonneg (sold (item ''Drinks'' ''P1'' ''Water'' 0 2 5 0 (- 3)))
   \<and> nonneg (waste (item ''Drinks'' ''P1'' ''Water'' 0 2 5 0 (- 3)))"
proof -
  have c: "cleanNumber (Str (ascii ''-2'')) = Fin (- 2) \<and> cleanNumber (Str (ascii ''-5'')) = Fin (- 5)"
    by (simp add: string_defs)
  show ?thesis
    using c processData_oversold_sheet
      movement_figures_nonneg [OF processData_oversold_sheet,
        of "day_of 1 True [item ''Drinks'' ''P1'' ''Water'' 0 2 5 0 (- 3)]"
           "item ''Drinks'' ''P1'' ''Water'' 0 2 5 0 (- 3)"]
    by (simp add: day_of_def)
qed

section \<open>Which rows are product rows\<close>


lemma row_loop_ident:
  "map (\<lambda>p. (category p, code p, name p)) (snd (snd (row_loop d row1 m rows))) =
   map (\<lambda>r. (r ! 1, r ! 2, r ! 3)) (filter valid_row rows)"
proof (induction rows arbitrary: m)
  case Nil
  then show ?case by simp
next
  case (Cons r rs)
  show ?case
  proof (cases "valid_row r")
    case False
    then show ?thesis using Cons.IH by simp
  next
    case True
    obtain m1 p where pr: "process_row d row1 m r = (m1, p)"
      by (cases "process_row d row1 m r")
    then have "category p = r ! 1 \<and> code p = r ! 2 \<and> name p = r ! 3"
      using process_row_ident[of d row1 m r] by simp
    then show ?thesis
      using Cons.IH[of m1] True
      by (simp add: row_loop_Cons_valid(3)[OF True pr] del: row_loop.simps)
  qed
qed




section \<open>The day filter\<close>

lemma day_filter_eq:
  "day_filter store = (if \<exists>d\<in>set store. hasData d then filter hasData store else store)"
  by (auto simp: day_filter_def Let_def filter_empty_conv)

text \<open>
  C5 on the sheet with a quiet day between two active days: the flags of the three days
  are true, false, true, and the filter removes day 2, which is not a trailing day.
\<close>

theorem day_filter_drops_inner_day:
  "map hasData (all_days gap_sheet) = [True, False, True]
   \<and> map dayNum (all_days gap_sheet) = [1, 2, 3]
   \<and> processData gap_sheet =
       Some [day_of 1 True [item ''Drinks'' ''P1'' ''Water'' 0 5 5 0 0],
             day_of 3 True [item ''Drinks'' ''P1'' ''Water'' 0 3 0 0 3]]"
  using processData_gap_sheet by (simp add: all_days_gap_sheet day_of_def)

section \<open>Carry-forward between records\<close>

lemma state_before_proto: "state_before data k i (ascii ''__proto__'') = None"
  unfolding state_before_def by (rule carry_after_proto) simp

lemma carry_get_Some: "m k = Some v \<Longrightarrow> carry_get m k = Some (Num v)"
  by (simp add: carry_get_def)

lemma record_bf:
  assumes "k < length (all_days data)" and "i < length (products (all_days data ! k))"
  shows "broughtForward (products (all_days data ! k) ! i) =
     (let e = entry_before data k i (code (products (all_days data ! k) ! i));
          s = sheet_bf (hd data) (filter valid_row (tl data) ! i) (Suc k)
      in if k = 0 \<and> entry_falsy e \<and> js_gt s (Fin 0) then Num s else or_zero e)"
proof -
  define m where "m = state_before data k i"
  define r where "r = filter valid_row (tl data) ! i"
  have p: "products (all_days data ! k) ! i = snd (process_row (Suc k) (hd data) m r)"
    using record_at(1)[OF assms] by (simp add: m_def r_def state_before_def)
  have c: "code (products (all_days data ! k) ! i) = r ! 2"
    using process_row_ident[of "Suc k" "hd data" m r] by (simp add: p)
  have e: "entry_before data k i (code (products (all_days data ! k) ! i)) = carry_get m (r ! 2)"
    by (simp add: entry_before_def m_def c)
  have mp: "m (ascii ''__proto__'') = None"
    by (simp add: m_def state_before_proto)
  have "broughtForward (snd (process_row (Suc k) (hd data) m r)) =
     (if k = 0 \<and> entry_falsy (carry_get m (r ! 2)) \<and> js_gt (sheet_bf (hd data) r (Suc k)) (Fin 0)
      then Num (sheet_bf (hd data) r (Suc k)) else or_zero (carry_get m (r ! 2)))"
    using process_row_bf[of m "Suc k" "hd data" r] mp by simp
  then show ?thesis
    by (simp add: Let_def e p[symmetric] r_def[symmetric])
qed

lemma proto_record_bf:
  assumes "k < length (all_days data)" and "i < length (products (all_days data ! k))"
    and "code (products (all_days data ! k) ! i) = ascii ''__proto__''"
  shows "broughtForward (products (all_days data ! k) ! i) = ProtoMember"
proof -
  have "entry_before data k i (ascii ''__proto__'') = Some ProtoMember"
    by (simp add: entry_before_def carry_get_proto state_before_proto)
  then show ?thesis
    using record_bf[OF assms(1,2)] assms(3) by (simp add: Let_def entry_falsy_def or_zero_def)
qed

lemma proto_record_mem:
  assumes "k < length (all_days data)" and "q \<in> set (products (all_days data ! k))"
    and "code q = ascii ''__proto__''"
  shows "broughtForward q = ProtoMember"
proof -
  obtain i where "i < length (products (all_days data ! k))" "products (all_days data ! k) ! i = q"
    using assms(2) by (auto simp: in_set_conv_nth)
  then show ?thesis
    using proto_record_bf[OF assms(1), of i] assms(3) by simp
qed

lemma earlier_records_Suc:
  "k < length store \<Longrightarrow> earlier_records store (Suc k) = earlier_records store k @ products (store ! k)"
  by (simp add: earlier_records_def take_Suc_conv_app_nth)

lemma all_days_index:
  assumes "dr \<in> set (all_days data)"
  shows "dayNum dr - 1 < length (all_days data) \<and> dr = all_days data ! (dayNum dr - 1)
     \<and> dayNum dr = Suc (dayNum dr - 1)"
proof -
  obtain k where k: "k < length (all_days data)" "dr = all_days data ! k"
    using assms by (auto simp: in_set_conv_nth)
  then have "dayNum dr = Suc k"
    using all_days_nth(1)[OF k(1)] by simp
  then show ?thesis using k by simp
qed

lemma processData_all_days:
  assumes "processData data = Some out"
  shows "out = day_filter (all_days data)" and "set out \<subseteq> set (all_days data)"
proof -
  show "out = day_filter (all_days data)"
    using assms by (simp add: processData_def split: if_splits)
  then show "set out \<subseteq> set (all_days data)"
    using set_day_filter by simp
qed

lemma processData_index:
  assumes "processData data = Some out" and "dr \<in> set out"
  shows "dayNum dr - 1 < length (all_days data) \<and> dr = all_days data ! (dayNum dr - 1)
     \<and> dayNum dr = Suc (dayNum dr - 1)"
  using all_days_index[of dr data] processData_all_days(2)[OF assms(1)] assms(2) by blast

lemma day_filter_mem:
  "b \<in> set store \<Longrightarrow> b \<in> set (day_filter store) \<longleftrightarrow> hasData b \<or> \<not> (\<exists>d\<in>set store. hasData d)"
  by (auto simp: day_filter_def Let_def filter_empty_conv)

lemma next_day_first:
  assumes k: "Suc k < length (all_days data)"
    and a: "products (all_days data ! k) = ps1 @ p # ps2" and last: "code p \<notin> code ` set ps2"
    and b: "products (all_days data ! Suc k) = qs1 @ q # qs2"
    and same: "code q = code p" and first: "code p \<notin> code ` set qs1"
    and np: "code p \<noteq> ascii ''__proto__''"
  shows "broughtForward q = Num (if remain p = NaN then Fin 0 else remain p)"
proof -
  have i: "length qs1 < length (products (all_days data ! Suc k))"
    by (simp add: b)
  have q: "products (all_days data ! Suc k) ! length qs1 = q"
    by (simp add: b)
  have l: "earlier_records (all_days data) (Suc k) @ take (length qs1) (products (all_days data ! Suc k))
        = (earlier_records (all_days data) k @ ps1) @ p # (ps2 @ qs1)"
    using k by (simp add: earlier_records_Suc a b)
  have "code p \<notin> code ` set (ps2 @ qs1)"
    using last first by auto
  then have "carry_after Map.empty ((earlier_records (all_days data) k @ ps1) @ p # (ps2 @ qs1)) (code p)
        = Some (remain p)"
    using np by (rule carry_after_last)
  then have "state_before data (Suc k) (length qs1) (code p) = Some (remain p)"
    unfolding state_before_def by (simp only: l)
  then have e: "entry_before data (Suc k) (length qs1) (code p) = Some (Num (remain p))"
    unfolding entry_before_def by (rule carry_get_Some)
  show ?thesis
    using record_bf[OF k i] by (simp add: q same e or_zero_Some)
qed

lemma same_day_entry:
  assumes ps: "products (all_days data ! k) = ps1 @ p # mid @ q # ps2"
    and between: "code p \<notin> code ` set mid"
    and np: "code p \<noteq> ascii ''__proto__''"
  shows "entry_before data k (length (ps1 @ p # mid)) (code p) = Some (Num (remain p))"
proof -
  have l: "earlier_records (all_days data) k @ take (length (ps1 @ p # mid)) (products (all_days data ! k))
        = (earlier_records (all_days data) k @ ps1) @ p # mid"
    by (simp add: ps)
  have "carry_after Map.empty ((earlier_records (all_days data) k @ ps1) @ p # mid) (code p)
        = Some (remain p)"
    using between np by (rule carry_after_last)
  then have "state_before data k (length (ps1 @ p # mid)) (code p) = Some (remain p)"
    unfolding state_before_def by (simp only: l)
  then show ?thesis
    unfolding entry_before_def by (rule carry_get_Some)
qed

lemma same_day_next:
  assumes k: "k < length (all_days data)"
    and ps: "products (all_days data ! k) = ps1 @ p # mid @ q # ps2"
    and same: "code q = code p" and between: "code p \<notin> code ` set mid"
    and np: "code p \<noteq> ascii ''__proto__''"
    and ok: "k \<noteq> 0 \<or> truthy (remain p)"
  shows "broughtForward q = Num (if remain p = NaN then Fin 0 else remain p)"
proof -
  define i where "i = length (ps1 @ p # mid)"
  have i: "i < length (products (all_days data ! k))"
    by (simp add: ps i_def)
  have q: "products (all_days data ! k) ! i = q"
    unfolding ps i_def by (simp add: nth_append)
  have e: "entry_before data k i (code p) = Some (Num (remain p))"
    unfolding i_def using ps between np by (rule same_day_entry)
  have "\<not> (k = 0 \<and> entry_falsy (Some (Num (remain p))))"
    using ok by (auto simp: entry_falsy_def)
  then show ?thesis
    using record_bf[OF k i] by (auto simp: q same e or_zero_Some Let_def)
qed

lemma same_day_seed:
  assumes k: "0 < length (all_days data)"
    and ps: "products (all_days data ! 0) = ps1 @ p # mid @ q # ps2"
    and same: "code q = code p" and between: "code p \<notin> code ` set mid"
    and np: "code p \<noteq> ascii ''__proto__''"
    and z: "\<not> truthy (remain p)"
  shows "broughtForward q =
           Num (let s = sheet_bf (hd data) (filter valid_row (tl data) ! length (ps1 @ p # mid)) 1
                in if js_gt s (Fin 0) then s else Fin 0)"
proof -
  define i where "i = length (ps1 @ p # mid)"
  have i: "i < length (products (all_days data ! 0))"
    by (simp add: ps i_def)
  have q: "products (all_days data ! 0) ! i = q"
    unfolding ps i_def by (simp add: nth_append)
  have e: "entry_before data 0 i (code p) = Some (Num (remain p))"
    unfolding i_def using ps between np by (rule same_day_entry)
  have f: "entry_falsy (Some (Num (remain p)))"
    using z by (simp add: entry_falsy_def)
  have oz: "or_zero (Some (Num (remain p))) = Num (Fin 0)"
    using z by (simp add: or_zero_def)
  have "broughtForward q =
           Num (let s = sheet_bf (hd data) (filter valid_row (tl data) ! i) 1
                in if js_gt s (Fin 0) then s else Fin 0)"
    using record_bf[OF k i] by (simp add: q same e f oz Let_def)
  then show ?thesis
    by (simp only: i_def)
qed

lemma products_codes:
  assumes "k < length (all_days data)"
  shows "map code (products (all_days data ! k)) = map (\<lambda>r. r ! 2) (filter valid_row (tl data))"
proof -
  have "map (\<lambda>p. (category p, code p, name p)) (products (all_days data ! k)) =
        map (\<lambda>r. (r ! 1, r ! 2, r ! 3)) (filter valid_row (tl data))"
    by (simp only: all_days_nth(2)[OF assms] row_loop_ident)
  then have "map (fst \<circ> snd) (map (\<lambda>p. (category p, code p, name p)) (products (all_days data ! k))) =
        map (fst \<circ> snd) (map (\<lambda>r. (r ! 1, r ! 2, r ! 3)) (filter valid_row (tl data)))"
    by simp
  then show ?thesis by (simp add: comp_def)
qed

text \<open>
  C2, as the code has it. Take two consecutive days \<open>d - 1\<close> and \<open>d\<close> of the day loop,
  whether or not the day filter keeps them. Their records carry the same product codes in
  the same order. For a code other than \<^verbatim>\<open>__proto__\<close>, the first record of the code on
  day \<open>d\<close> has as brought-forward the remain of the last record of that code on day
  \<open>d - 1\<close>, or 0 when that remain is \<open>NaN\<close>; when the codes of a day are distinct, these
  are the records of the code on the two days. A record whose code is \<^verbatim>\<open>__proto__\<close> has
  a brought-forward that is not a number. The output consists of days of the day loop, and
  each of the two days is in the output exactly when it has data or no day has.
\<close>

theorem carry_forward_continuity:
  assumes pd: "processData data = Some out"
    and a: "a \<in> set (all_days data)" and b: "b \<in> set (all_days data)"
    and succ: "dayNum b = Suc (dayNum a)"
  shows "map code (products b) = map code (products a)
     \<and> (\<forall>ps1 p ps2 qs1 q qs2.
           products a = ps1 @ p # ps2 \<and> code p \<notin> code ` set ps2
           \<and> products b = qs1 @ q # qs2 \<and> code q = code p \<and> code p \<notin> code ` set qs1
           \<and> code p \<noteq> ascii ''__proto__''
           \<longrightarrow> broughtForward q = Num (if remain p = NaN then Fin 0 else remain p))
     \<and> (distinct (map code (products a)) \<longrightarrow>
           (\<forall>p\<in>set (products a). \<forall>q\<in>set (products b).
              code q = code p \<and> code p \<noteq> ascii ''__proto__''
              \<longrightarrow> broughtForward q = Num (if remain p = NaN then Fin 0 else remain p)))
     \<and> (\<forall>q\<in>set (products a) \<union> set (products b).
           code q = ascii ''__proto__'' \<longrightarrow> broughtForward q = ProtoMember)
     \<and> set out \<subseteq> set (all_days data)
     \<and> (a \<in> set out \<longleftrightarrow> hasData a \<or> \<not> (\<exists>d\<in>set (all_days data). hasData d))
     \<and> (b \<in> set out \<longleftrightarrow> hasData b \<or> \<not> (\<exists>d\<in>set (all_days data). hasData d))"
proof -
  define k where "k = dayNum a - 1"
  have ia: "k < length (all_days data)" "a = all_days data ! k" "dayNum a = Suc k"
    using all_days_index[OF a] by (simp_all add: k_def)
  have ib: "Suc k < length (all_days data)" "b = all_days data ! Suc k"
    using all_days_index[OF b] succ ia(3) by simp_all
  have codes: "map code (products b) = map code (products a)"
    using products_codes[OF ia(1)] products_codes[OF ib(1)] ia(2) ib(2) by simp
  have gen: "broughtForward q = Num (if remain p = NaN then Fin 0 else remain p)"
    if "products a = ps1 @ p # ps2" "code p \<notin> code ` set ps2"
       "products b = qs1 @ q # qs2" "code q = code p" "code p \<notin> code ` set qs1"
       "code p \<noteq> ascii ''__proto__''"
    for ps1 p ps2 qs1 q qs2
    using next_day_first[OF ib(1), of ps1 p ps2 qs1 q qs2] that ia(2) ib(2) by simp
  have dis: "broughtForward q = Num (if remain p = NaN then Fin 0 else remain p)"
    if d: "distinct (map code (products a))" and p: "p \<in> set (products a)"
      and q: "q \<in> set (products b)" and same: "code q = code p"
      and np: "code p \<noteq> ascii ''__proto__''"
    for p q
  proof -
    obtain ps1 ps2 where sa: "products a = ps1 @ p # ps2"
      using p by (auto dest: split_list)
    obtain qs1 qs2 where sb: "products b = qs1 @ q # qs2"
      using q by (auto dest: split_list)
    have "distinct (map code (products b))"
      using d codes by simp
    then have "code q \<notin> code ` set qs1"
      by (auto simp: sb)
    moreover have "code p \<notin> code ` set ps2"
      using d by (auto simp: sa)
    ultimately show ?thesis
      using gen[OF sa _ sb same _ np] same by simp
  qed
  have proto: "\<forall>q\<in>set (products a) \<union> set (products b).
           code q = ascii ''__proto__'' \<longrightarrow> broughtForward q = ProtoMember"
    using proto_record_mem[OF ia(1)] proto_record_mem[OF ib(1)] ia(2) ib(2) by blast
  have sub: "set out \<subseteq> set (all_days data)"
    using pd by (rule processData_all_days(2))
  have mema: "a \<in> set out \<longleftrightarrow> hasData a \<or> \<not> (\<exists>d\<in>set (all_days data). hasData d)"
    using day_filter_mem[OF a] by (simp only: processData_all_days(1)[OF pd])
  have mem: "b \<in> set out \<longleftrightarrow> hasData b \<or> \<not> (\<exists>d\<in>set (all_days data). hasData d)"
    using day_filter_mem[OF b] by (simp only: processData_all_days(1)[OF pd])
  have g: "\<forall>ps1 p ps2 qs1 q qs2.
           products a = ps1 @ p # ps2 \<and> code p \<notin> code ` set ps2
           \<and> products b = qs1 @ q # qs2 \<and> code q = code p \<and> code p \<notin> code ` set qs1
           \<and> code p \<noteq> ascii ''__proto__''
           \<longrightarrow> broughtForward q = Num (if remain p = NaN then Fin 0 else remain p)"
    using gen by blast
  have d: "distinct (map code (products a)) \<longrightarrow>
           (\<forall>p\<in>set (products a). \<forall>q\<in>set (products b).
              code q = code p \<and> code p \<noteq> ascii ''__proto__''
              \<longrightarrow> broughtForward q = Num (if remain p = NaN then Fin 0 else remain p))"
    using dis by blast
  show ?thesis
    by (intro conjI) (fact codes g d proto sub mema mem)+
qed

theorem carry_forward_continuity_witness:
  "processData scenario_sheet =
     Some [day_of 1 True [item ''Drinks'' ''P1'' ''Water'' 10 5 3 0 12],
           day_of 2 True [item ''Drinks'' ''P1'' ''Water'' 12 3 3 0 12]]
   \<and> all_days scenario_sheet =
       [day_of 1 True [item ''Drinks'' ''P1'' ''Water'' 10 5 3 0 12],
        day_of 2 True [item ''Drinks'' ''P1'' ''Water'' 12 3 3 0 12]]
   \<and> dayNum (day_of 2 True [item ''Drinks'' ''P1'' ''Water'' 12 3 3 0 12])
       = Suc (dayNum (day_of 1 True [item ''Drinks'' ''P1'' ''Water'' 10 5 3 0 12]))
   \<and> code (item ''Drinks'' ''P1'' ''Water'' 10 5 3 0 12) \<noteq> ascii ''__proto__''
   \<and> broughtForward (item ''Drinks'' ''P1'' ''Water'' 12 3 3 0 12)
       = Num (remain (item ''Drinks'' ''P1'' ''Water'' 10 5 3 0 12))
   \<and> processData gap_sheet =
     Some [day_of 1 True [item ''Drinks'' ''P1'' ''Water'' 0 5 5 0 0],
           day_of 3 True [item ''Drinks'' ''P1'' ''Water'' 0 3 0 0 3]]
   \<and> all_days gap_sheet =
       [day_of 1 True [item ''Drinks'' ''P1'' ''Water'' 0 5 5 0 0],
        day_of 2 False [item ''Drinks'' ''P1'' ''Water'' 0 0 0 0 0],
        day_of 3 True [item ''Drinks'' ''P1'' ''Water'' 0 3 0 0 3]]
   \<and> broughtForward (item ''Drinks'' ''P1'' ''Water'' 0 0 0 0 0)
       = Num (remain (item ''Drinks'' ''P1'' ''Water'' 0 5 5 0 0))
   \<and> processData proto_sheet =
     Some [day_of 1 True
             [item_of ''Drinks'' ''__proto__'' ''Water'' ProtoMember (Fin 5) (Fin 0) (Fin 0) NaN],
           day_of 2 True
             [item_of ''Drinks'' ''__proto__'' ''Water'' ProtoMember (Fin 1) (Fin 0) (Fin 0) NaN]]
   \<and> broughtForward
        (item_of ''Drinks'' ''__proto__'' ''Water'' ProtoMember (Fin 1) (Fin 0) (Fin 0) NaN)
       = ProtoMember"
proof -
  have s: "broughtForward (item ''Drinks'' ''P1'' ''Water'' 12 3 3 0 12)
       = Num (remain (item ''Drinks'' ''P1'' ''Water'' 10 5 3 0 12))"
    using carry_forward_continuity [OF processData_scenario_sheet,
        of "day_of 1 True [item ''Drinks'' ''P1'' ''Water'' 10 5 3 0 12]"
           "day_of 2 True [item ''Drinks'' ''P1'' ''Water'' 12 3 3 0 12]"]
    by (simp add: all_days_scenario_sheet day_of_def item_def ascii_def)
  have g: "broughtForward (item ''Drinks'' ''P1'' ''Water'' 0 0 0 0 0)
       = Num (remain (item ''Drinks'' ''P1'' ''Water'' 0 5 5 0 0))"
    using carry_forward_continuity [OF processData_gap_sheet,
        of "day_of 1 True [item ''Drinks'' ''P1'' ''Water'' 0 5 5 0 0]"
           "day_of 2 False [item ''Drinks'' ''P1'' ''Water'' 0 0 0 0 0]"]
    by (simp add: all_days_gap_sheet day_of_def item_def ascii_def)
  have p: "broughtForward
        (item_of ''Drinks'' ''__proto__'' ''Water'' ProtoMember (Fin 1) (Fin 0) (Fin 0) NaN)
       = ProtoMember"
    using carry_forward_continuity [OF processData_proto_sheet,
        of "day_of 1 True
             [item_of ''Drinks'' ''__proto__'' ''Water'' ProtoMember (Fin 5) (Fin 0) (Fin 0) NaN]"
           "day_of 2 True
             [item_of ''Drinks'' ''__proto__'' ''Water'' ProtoMember (Fin 1) (Fin 0) (Fin 0) NaN]"]
    by (simp add: all_days_proto_sheet day_of_def item_of_def)
  have c: "code (item ''Drinks'' ''P1'' ''Water'' 10 5 3 0 12) \<noteq> ascii ''__proto__''"
    by (simp add: item_def ascii_def)
  show ?thesis
    using processData_scenario_sheet all_days_scenario_sheet processData_gap_sheet
      all_days_gap_sheet processData_proto_sheet s g p c
    by (simp add: day_of_def)
qed

text \<open>
  C2 as stated speaks of the record of a code on a day. With two rows of the same code, the
  first row's brought-forward on day 2 is the remain of the second row on day 1, not its
  own remain of day 1. With the code \<^verbatim>\<open>__proto__\<close> the write of the remain is ignored,
  and the brought-forward of day 2 is not the remain of day 1, nor 0.
\<close>

theorem repeated_code_counterexample:
  "processData twin_sheet =
     Some [day_of 1 True [item ''Drinks'' ''P1'' ''Water'' 0 5 0 0 5,
                          item ''Drinks'' ''P1'' ''Water 2'' 5 1 0 0 6],
           day_of 2 True [item ''Drinks'' ''P1'' ''Water'' 6 0 0 0 6,
                          item ''Drinks'' ''P1'' ''Water 2'' 6 0 0 0 6]]
   \<and> code (item ''Drinks'' ''P1'' ''Water'' 6 0 0 0 6) = code (item ''Drinks'' ''P1'' ''Water'' 0 5 0 0 5)
   \<and> broughtForward (item ''Drinks'' ''P1'' ''Water'' 6 0 0 0 6)
       \<noteq> Num (remain (item ''Drinks'' ''P1'' ''Water'' 0 5 0 0 5))
   \<and> processData proto_sheet =
     Some [day_of 1 True
             [item_of ''Drinks'' ''__proto__'' ''Water'' ProtoMember (Fin 5) (Fin 0) (Fin 0) NaN],
           day_of 2 True
             [item_of ''Drinks'' ''__proto__'' ''Water'' ProtoMember (Fin 1) (Fin 0) (Fin 0) NaN]]
   \<and> broughtForward
        (item_of ''Drinks'' ''__proto__'' ''Water'' ProtoMember (Fin 1) (Fin 0) (Fin 0) NaN)
       \<noteq> Num (remain
             (item_of ''Drinks'' ''__proto__'' ''Water'' ProtoMember (Fin 5) (Fin 0) (Fin 0) NaN))
   \<and> broughtForward
        (item_of ''Drinks'' ''__proto__'' ''Water'' ProtoMember (Fin 1) (Fin 0) (Fin 0) NaN)
       \<noteq> Num (Fin 0)"
  using processData_twin_sheet processData_proto_sheet by (simp add: item_def item_of_def)

section \<open>The opening balance of day 1\<close>

text \<open>
  On day 1 the read of \<^verbatim>\<open>previousDayRemain[c]\<close> is \<^verbatim>\<open>undefined\<close> exactly when no
  earlier record of the day carries the code \<open>c\<close> and \<open>c\<close> names no property of
  \<^verbatim>\<open>Object.prototype\<close>.
\<close>

lemma proto_in_keys: "ascii ''__proto__'' \<in> set proto_keys"
  by (simp add: proto_keys_def)

lemma carry_get_None: "carry_get m c = None \<longleftrightarrow> m c = None \<and> c \<notin> set proto_keys"
  by (simp add: carry_get_def split: option.splits)

lemma entry_before_first_day:
  "entry_before data 0 i c = None \<longleftrightarrow>
     c \<notin> code ` set (take i (products (all_days data ! 0))) \<and> c \<notin> set proto_keys"
proof
  assume n: "entry_before data 0 i c = None"
  then have n1: "state_before data 0 i c = None" and n2: "c \<notin> set proto_keys"
    by (simp_all add: entry_before_def carry_get_None)
  have np: "c \<noteq> ascii ''__proto__''"
    using n2 proto_in_keys by auto
  have "c \<notin> code ` set (take i (products (all_days data ! 0)))"
  proof
    assume "c \<in> code ` set (take i (products (all_days data ! 0)))"
    then obtain p where p: "p \<in> set (take i (products (all_days data ! 0)))" "code p = c"
      by auto
    then have "\<exists>ps1 q ps2. take i (products (all_days data ! 0)) = ps1 @ q # ps2 \<and> code q = c
        \<and> (\<forall>x\<in>set ps2. code x \<noteq> c)"
      using split_list_last_prop[of "take i (products (all_days data ! 0))" "\<lambda>x. code x = c"]
      by auto
    then obtain ps1 q ps2 where d: "take i (products (all_days data ! 0)) = ps1 @ q # ps2"
        "code q = c" "\<forall>x\<in>set ps2. code x \<noteq> c"
      by blast
    have "code q \<notin> code ` set ps2"
      using d(2,3) by auto
    moreover have "code q \<noteq> ascii ''__proto__''"
      using np d(2) by simp
    ultimately have "carry_after Map.empty (ps1 @ q # ps2) (code q) = Some (remain q)"
      by (rule carry_after_last)
    then show False
      using n1 d(1,2) by (simp add: state_before_def earlier_records_def)
  qed
  then show "c \<notin> code ` set (take i (products (all_days data ! 0))) \<and> c \<notin> set proto_keys"
    using n2 by simp
next
  assume "c \<notin> code ` set (take i (products (all_days data ! 0))) \<and> c \<notin> set proto_keys"
  then show "entry_before data 0 i c = None"
    by (simp add: entry_before_def carry_get_None state_before_def earlier_records_def
        carry_after_notin)
qed

text \<open>
  C3, as the code has it. On day 1, when the read of the carry state for the code of a row
  is \<^verbatim>\<open>undefined\<close> (no earlier row of the day carries the code, and the code names no
  property of \<^verbatim>\<open>Object.prototype\<close>), the brought-forward of its record is the figure the
  sheet states for the row if that figure is greater than zero, and 0 otherwise. The same
  holds on day 1 when the read is 0 or \<open>NaN\<close>, the remain of an earlier row of the same
  code: the seed is then applied again. On any other day, and on day 1 when the read is a
  nonzero number or an inherited member, the sheet's figure is not used: the
  brought-forward is the read, with 0 for a read that is \<^verbatim>\<open>undefined\<close>, 0 or \<open>NaN\<close>.
\<close>

theorem day1_seed_rule:
  assumes pd: "processData data = Some out" and dr: "dr \<in> set out"
    and i: "i < length (products dr)"
  shows "(dayNum dr = 1 \<and> entry_before data 0 i (code (products dr ! i)) = None \<longrightarrow>
            broughtForward (products dr ! i) =
              Num (let s = sheet_bf (hd data) (filter valid_row (tl data) ! i) 1
                   in if js_gt s (Fin 0) then s else Fin 0))
     \<and> (dayNum dr = 1 \<and> entry_falsy (entry_before data 0 i (code (products dr ! i))) \<longrightarrow>
            broughtForward (products dr ! i) =
              Num (let s = sheet_bf (hd data) (filter valid_row (tl data) ! i) 1
                   in if js_gt s (Fin 0) then s else Fin 0))
     \<and> (dayNum dr \<noteq> 1 \<or> \<not> entry_falsy (entry_before data 0 i (code (products dr ! i))) \<longrightarrow>
            broughtForward (products dr ! i) =
              or_zero (entry_before data (dayNum dr - 1) i (code (products dr ! i))))
     \<and> (entry_before data 0 i (code (products dr ! i)) = None \<longleftrightarrow>
            code (products dr ! i) \<notin> code ` set (take i (products (all_days data ! 0)))
            \<and> code (products dr ! i) \<notin> set proto_keys)"
proof -
  define k where "k = dayNum dr - 1"
  define c where "c = code (products dr ! i)"
  have ix: "k < length (all_days data)" "dr = all_days data ! k" "dayNum dr = Suc k"
    using processData_index[OF pd dr] by (simp_all add: k_def)
  have il: "i < length (products (all_days data ! k))"
    using i ix(2) by simp
  have km: "dayNum dr - Suc 0 = k"
    by (simp add: k_def)
  have bf: "broughtForward (products dr ! i) =
     (let e = entry_before data k i c;
          s = sheet_bf (hd data) (filter valid_row (tl data) ! i) (Suc k)
      in if k = 0 \<and> entry_falsy e \<and> js_gt s (Fin 0) then Num s else or_zero e)"
    using record_bf[OF ix(1) il] ix(2) by (simp add: c_def)
  have falsy: "broughtForward (products dr ! i) =
              Num (let s = sheet_bf (hd data) (filter valid_row (tl data) ! i) 1
                   in if js_gt s (Fin 0) then s else Fin 0)"
    if "dayNum dr = 1" "entry_falsy (entry_before data 0 i c)"
  proof -
    have k0: "k = 0" using that(1) ix(3) by simp
    have "or_zero (entry_before data 0 i c) = Num (Fin 0)"
      using that(2) by (auto simp: entry_falsy_def or_zero_def split: option.splits jsfield.splits)
    then show ?thesis
      using bf that(2) k0 by (simp add: Let_def)
  qed
  have one: "broughtForward (products dr ! i) =
              Num (let s = sheet_bf (hd data) (filter valid_row (tl data) ! i) 1
                   in if js_gt s (Fin 0) then s else Fin 0)"
    if "dayNum dr = 1" "entry_before data 0 i c = None"
    using falsy[OF that(1)] that(2) by (simp add: entry_falsy_def)
  have other: "broughtForward (products dr ! i) = or_zero (entry_before data (dayNum dr - 1) i c)"
    if h: "dayNum dr \<noteq> 1 \<or> \<not> entry_falsy (entry_before data 0 i c)"
  proof (cases "k = 0")
    case True
    then have "\<not> entry_falsy (entry_before data 0 i c)"
      using h ix(3) by auto
    then show ?thesis
      using bf True by (simp add: Let_def km)
  next
    case False
    then show ?thesis
      using bf by (simp add: Let_def km)
  qed
  have none: "entry_before data 0 i c = None \<longleftrightarrow>
            c \<notin> code ` set (take i (products (all_days data ! 0))) \<and> c \<notin> set proto_keys"
    by (rule entry_before_first_day)
  show ?thesis
    unfolding c_def[symmetric] using one falsy other none by blast
qed

lemma scenario_valid_rows: "filter valid_row (tl scenario_sheet) = [scenario_sheet ! 1]"
  by (simp add: scenario_sheet_def sheet_defs valid_row_def blank_def cell_def string_defs)

lemma scenario_sheet_bf: "sheet_bf (hd scenario_sheet) (scenario_sheet ! 1) 1 = Fin 10"
  by (simp add: sheet_bf_def scenario_sheet_def sheet_defs pipeline_defs header_defs string_defs)

lemma double_seed_valid_rows:
  "filter valid_row (tl double_seed_sheet) = [double_seed_sheet ! 1, double_seed_sheet ! 2]"
  by (simp add: double_seed_sheet_def sheet_defs valid_row_def blank_def cell_def string_defs)

lemma double_seed_sheet_bf:
  "sheet_bf (hd double_seed_sheet) (double_seed_sheet ! 1) 1 = Fin 10
   \<and> sheet_bf (hd double_seed_sheet) (double_seed_sheet ! 2) 1 = Fin 7"
  by (simp add: sheet_bf_def double_seed_sheet_def sheet_defs pipeline_defs header_defs string_defs)

lemma double_seed_entries:
  "entry_before double_seed_sheet 0 0 (ascii ''P1'') = None
   \<and> entry_before double_seed_sheet 0 1 (ascii ''P1'') = Some (Num (Fin 0))"
  by (simp add: entry_before_def state_before_def earlier_records_def all_days_double_seed_sheet
      day_of_def item_def carry_get_def carry_set_def proto_keys_def ascii_def)

theorem day1_seed_rule_witness:
  "processData scenario_sheet =
     Some [day_of 1 True [item ''Drinks'' ''P1'' ''Water'' 10 5 3 0 12],
           day_of 2 True [item ''Drinks'' ''P1'' ''Water'' 12 3 3 0 12]]
   \<and> entry_before scenario_sheet 0 0 (ascii ''P1'') = None
   \<and> sheet_bf (hd scenario_sheet) (scenario_sheet ! 1) 1 = Fin 10
   \<and> broughtForward (item ''Drinks'' ''P1'' ''Water'' 10 5 3 0 12) = Num (Fin 10)
   \<and> entry_before scenario_sheet 1 0 (ascii ''P1'') = Some (Num (Fin 12))
   \<and> broughtForward (item ''Drinks'' ''P1'' ''Water'' 12 3 3 0 12) = or_zero (Some (Num (Fin 12)))
   \<and> processData double_seed_sheet =
     Some [day_of 1 True [item ''Drinks'' ''P1'' ''Water'' 10 0 10 0 0,
                           item ''Drinks'' ''P1'' ''Water 2'' 7 0 0 0 7]]
   \<and> entry_falsy (entry_before double_seed_sheet 0 1 (ascii ''P1''))
   \<and> sheet_bf (hd double_seed_sheet) (double_seed_sheet ! 2) 1 = Fin 7
   \<and> broughtForward (item ''Drinks'' ''P1'' ''Water 2'' 7 0 0 0 7) = Num (Fin 7)"
proof -
  have e0: "entry_before scenario_sheet 0 0 (ascii ''P1'') = None"
    by (simp add: entry_before_def state_before_def earlier_records_def carry_get_def
        proto_keys_def ascii_def)
  have e1: "entry_before scenario_sheet 1 0 (ascii ''P1'') = Some (Num (Fin 12))"
    by (simp add: entry_before_def state_before_def earlier_records_def all_days_scenario_sheet
        day_of_def item_def carry_get_def carry_set_def ascii_def)
  have d1: "broughtForward (item ''Drinks'' ''P1'' ''Water'' 10 5 3 0 12) = Num (Fin 10)"
    using day1_seed_rule [OF processData_scenario_sheet,
        of "day_of 1 True [item ''Drinks'' ''P1'' ''Water'' 10 5 3 0 12]" 0,
        THEN conjunct1] e0
    by (simp add: day_of_def scenario_valid_rows scenario_sheet_bf js_gt_def)
       (simp add: item_def)
  have d2: "broughtForward (item ''Drinks'' ''P1'' ''Water'' 12 3 3 0 12) = or_zero (Some (Num (Fin 12)))"
    using day1_seed_rule [OF processData_scenario_sheet,
        of "day_of 2 True [item ''Drinks'' ''P1'' ''Water'' 12 3 3 0 12]" 0,
        THEN conjunct2, THEN conjunct2, THEN conjunct1] e1
    by (simp add: day_of_def)
       (simp add: item_def)
  have f: "entry_falsy (entry_before double_seed_sheet 0 1 (ascii ''P1''))"
    using double_seed_entries by (simp add: entry_falsy_def truthy_def)
  have d3: "broughtForward (item ''Drinks'' ''P1'' ''Water 2'' 7 0 0 0 7) = Num (Fin 7)"
    using day1_seed_rule [OF processData_double_seed_sheet,
        of "day_of 1 True [item ''Drinks'' ''P1'' ''Water'' 10 0 10 0 0,
                           item ''Drinks'' ''P1'' ''Water 2'' 7 0 0 0 7]" 1,
        THEN conjunct2, THEN conjunct1] f
    by (simp add: day_of_def double_seed_valid_rows double_seed_sheet_bf js_gt_def)
       (simp add: item_def)
  show ?thesis
    using processData_scenario_sheet processData_double_seed_sheet e0 e1 d1 d2 d3 f
      scenario_sheet_bf double_seed_sheet_bf
    by simp
qed

text \<open>
  C3 as stated seeds every nonzero figure, and at most once for a code. A stated opening
  balance of -5 is present and nonzero, and the brought-forward of day 1 is 0. With two
  rows of one code, the first stating 10 and selling 10, the second stating 7, the read for
  the second row is the number 0 and the seed is applied a second time for the code: the
  brought-forwards are 10 and 7.
\<close>

theorem negative_opening_counterexample:
  "sheet_bf (hd negative_opening_sheet) (negative_opening_sheet ! 1) 1 = Fin (- 5)
   \<and> processData negative_opening_sheet =
       Some [day_of 1 True [item ''Drinks'' ''P1'' ''Water'' 0 3 0 0 3]]
   \<and> broughtForward (item ''Drinks'' ''P1'' ''Water'' 0 3 0 0 3) = Num (Fin 0)
   \<and> processData double_seed_sheet =
       Some [day_of 1 True [item ''Drinks'' ''P1'' ''Water'' 10 0 10 0 0,
                             item ''Drinks'' ''P1'' ''Water 2'' 7 0 0 0 7]]
   \<and> code (item ''Drinks'' ''P1'' ''Water'' 10 0 10 0 0) = ascii ''P1''
   \<and> code (item ''Drinks'' ''P1'' ''Water 2'' 7 0 0 0 7) = ascii ''P1''
   \<and> entry_before double_seed_sheet 0 0 (ascii ''P1'') = None
   \<and> sheet_bf (hd double_seed_sheet) (double_seed_sheet ! 1) 1 = Fin 10
   \<and> broughtForward (item ''Drinks'' ''P1'' ''Water'' 10 0 10 0 0) = Num (Fin 10)
   \<and> entry_before double_seed_sheet 0 1 (ascii ''P1'') = Some (Num (Fin 0))
   \<and> sheet_bf (hd double_seed_sheet) (double_seed_sheet ! 2) 1 = Fin 7
   \<and> broughtForward (item ''Drinks'' ''P1'' ''Water 2'' 7 0 0 0 7) = Num (Fin 7)"
proof -
  have "sheet_bf (hd negative_opening_sheet) (negative_opening_sheet ! 1) 1 = Fin (- 5)"
    by (simp add: sheet_bf_def negative_opening_sheet_def sheet_defs pipeline_defs header_defs
        string_defs)
  then show ?thesis
    using processData_negative_opening_sheet processData_double_seed_sheet double_seed_sheet_bf
      double_seed_entries
    by (simp add: item_def)
qed

section \<open>Rows that share a product code\<close>

text \<open>
  C10, as the code has it. Two kept rows carry the same code, other than \<^verbatim>\<open>__proto__\<close>,
  with no row of that code between them. On every day after day 1, and on day 1 when the
  earlier row's remain is a nonzero number, the later row's brought-forward is the remain
  just computed for the earlier row (0 when that remain is \<open>NaN\<close>). On day 1, when the
  earlier row's remain is 0 or \<open>NaN\<close>, the later row's brought-forward is the figure the
  sheet states for it if that figure is greater than zero, and 0 otherwise. The remain of
  the last row of a code is what the first row of that code receives on the next day of the
  day loop. When the code is \<^verbatim>\<open>__proto__\<close>, the later row's brought-forward is not a
  number.
\<close>

theorem repeated_code_chain:
  assumes pd: "processData data = Some out" and dr: "dr \<in> set out"
    and ps: "products dr = ps1 @ p # mid @ q # ps2"
    and same: "code q = code p" and between: "code p \<notin> code ` set mid"
  shows "(code p \<noteq> ascii ''__proto__'' \<and> (dayNum dr \<noteq> 1 \<or> truthy (remain p)) \<longrightarrow>
            broughtForward q = Num (if remain p = NaN then Fin 0 else remain p))
     \<and> (code p \<noteq> ascii ''__proto__'' \<and> dayNum dr = 1 \<and> \<not> truthy (remain p) \<longrightarrow>
            broughtForward q =
              Num (let s = sheet_bf (hd data) (filter valid_row (tl data) ! length (ps1 @ p # mid)) 1
                   in if js_gt s (Fin 0) then s else Fin 0))
     \<and> (code p = ascii ''__proto__'' \<longrightarrow> broughtForward q = ProtoMember)
     \<and> (code p \<noteq> ascii ''__proto__'' \<and> code p \<notin> code ` set ps2 \<longrightarrow>
          (\<forall>b qs1 q' qs2.
              b \<in> set (all_days data) \<and> dayNum b = Suc (dayNum dr) \<and> products b = qs1 @ q' # qs2
              \<and> code q' = code p \<and> code p \<notin> code ` set qs1
              \<longrightarrow> broughtForward q' = Num (if remain q = NaN then Fin 0 else remain q)))"
proof -
  define k where "k = dayNum dr - 1"
  have ix: "k < length (all_days data)" "dr = all_days data ! k" "dayNum dr = Suc k"
    using processData_index[OF pd dr] by (simp_all add: k_def)
  have psk: "products (all_days data ! k) = ps1 @ p # mid @ q # ps2"
    using ps ix(2) by simp
  have here: "broughtForward q = Num (if remain p = NaN then Fin 0 else remain p)"
    if h: "code p \<noteq> ascii ''__proto__'' \<and> (dayNum dr \<noteq> 1 \<or> truthy (remain p))"
  proof -
    have np: "code p \<noteq> ascii ''__proto__''"
      using h by simp
    have "k \<noteq> 0 \<or> truthy (remain p)"
      using h ix(3) by auto
    with ix(1) psk same between np show ?thesis
      by (rule same_day_next)
  qed
  have seed: "broughtForward q =
              Num (let s = sheet_bf (hd data) (filter valid_row (tl data) ! length (ps1 @ p # mid)) 1
                   in if js_gt s (Fin 0) then s else Fin 0)"
    if h: "code p \<noteq> ascii ''__proto__'' \<and> dayNum dr = 1 \<and> \<not> truthy (remain p)"
  proof -
    have np: "code p \<noteq> ascii ''__proto__''" and z: "\<not> truthy (remain p)"
      using h by simp_all
    have k0: "k = 0"
      using h ix(3) by simp
    have l0: "0 < length (all_days data)"
      using ix(1) by (simp only: k0)
    have ps0: "products (all_days data ! 0) = ps1 @ p # mid @ q # ps2"
      using psk by (simp only: k0)
    from l0 ps0 same between np z show ?thesis
      by (rule same_day_seed)
  qed
  have proto: "broughtForward q = ProtoMember" if "code p = ascii ''__proto__''"
  proof -
    have "q \<in> set (products (all_days data ! k))"
      by (simp add: psk)
    then show ?thesis
      using proto_record_mem[OF ix(1)] same that by simp
  qed
  have later: "broughtForward q' = Num (if remain q = NaN then Fin 0 else remain q)"
    if l: "code p \<noteq> ascii ''__proto__'' \<and> code p \<notin> code ` set ps2"
      and b: "b \<in> set (all_days data)" and s: "dayNum b = Suc (dayNum dr)"
      and pb: "products b = qs1 @ q' # qs2" and c: "code q' = code p"
      and f: "code p \<notin> code ` set qs1"
    for b qs1 q' qs2
  proof -
    have ib: "Suc k < length (all_days data)" "b = all_days data ! Suc k"
      using all_days_index[OF b] s ix(3) by simp_all
    have pa: "products (all_days data ! k) = (ps1 @ p # mid) @ q # ps2"
      using psk by simp
    show ?thesis
      using next_day_first[OF ib(1) pa, of qs1 q' qs2] l pb c f same ib(2) by simp
  qed
  have l: "code p \<noteq> ascii ''__proto__'' \<and> code p \<notin> code ` set ps2 \<longrightarrow>
          (\<forall>b qs1 q' qs2.
              b \<in> set (all_days data) \<and> dayNum b = Suc (dayNum dr) \<and> products b = qs1 @ q' # qs2
              \<and> code q' = code p \<and> code p \<notin> code ` set qs1
              \<longrightarrow> broughtForward q' = Num (if remain q = NaN then Fin 0 else remain q))"
    using later by blast
  show ?thesis
    using here seed proto l by blast
qed

lemma twin_seed_valid_rows:
  "filter valid_row (tl twin_seed_sheet) = [twin_seed_sheet ! 1, twin_seed_sheet ! 2]"
  by (simp add: twin_seed_sheet_def sheet_defs valid_row_def blank_def cell_def string_defs)

lemma twin_seed_sheet_bf:
  "sheet_bf (hd twin_seed_sheet) (twin_seed_sheet ! 2) 1 = Fin 7"
  by (simp add: sheet_bf_def twin_seed_sheet_def sheet_defs pipeline_defs header_defs string_defs)

theorem repeated_code_chain_witness:
  "processData twin_sheet =
     Some [day_of 1 True [item ''Drinks'' ''P1'' ''Water'' 0 5 0 0 5,
                          item ''Drinks'' ''P1'' ''Water 2'' 5 1 0 0 6],
           day_of 2 True [item ''Drinks'' ''P1'' ''Water'' 6 0 0 0 6,
                          item ''Drinks'' ''P1'' ''Water 2'' 6 0 0 0 6]]
   \<and> broughtForward (item ''Drinks'' ''P1'' ''Water 2'' 5 1 0 0 6)
       = Num (remain (item ''Drinks'' ''P1'' ''Water'' 0 5 0 0 5))
   \<and> broughtForward (item ''Drinks'' ''P1'' ''Water'' 6 0 0 0 6)
       = Num (remain (item ''Drinks'' ''P1'' ''Water 2'' 5 1 0 0 6))
   \<and> processData twin_seed_sheet =
     Some [day_of 1 True [item ''Drinks'' ''P1'' ''Water'' 0 3 3 0 0,
                          item ''Drinks'' ''P1'' ''Water 2'' 7 0 0 0 7]]
   \<and> sheet_bf (hd twin_seed_sheet) (twin_seed_sheet ! 2) 1 = Fin 7
   \<and> broughtForward (item ''Drinks'' ''P1'' ''Water 2'' 7 0 0 0 7) = Num (Fin 7)
   \<and> processData proto_twin_sheet =
     Some [day_of 1 True
             [item_of ''Drinks'' ''__proto__'' ''Water'' ProtoMember (Fin 5) (Fin 0) (Fin 0) NaN,
              item_of ''Drinks'' ''__proto__'' ''Water 2'' ProtoMember (Fin 2) (Fin 0) (Fin 0) NaN],
           day_of 2 True
             [item_of ''Drinks'' ''__proto__'' ''Water'' ProtoMember (Fin 1) (Fin 0) (Fin 0) NaN,
              item_of ''Drinks'' ''__proto__'' ''Water 2'' ProtoMember (Fin 0) (Fin 0) (Fin 0) NaN]]
   \<and> broughtForward
        (item_of ''Drinks'' ''__proto__'' ''Water 2'' ProtoMember (Fin 2) (Fin 0) (Fin 0) NaN)
       = ProtoMember"
proof -
  let ?A1 = "item ''Drinks'' ''P1'' ''Water'' 0 5 0 0 5"
  let ?B1 = "item ''Drinks'' ''P1'' ''Water 2'' 5 1 0 0 6"
  let ?A2 = "item ''Drinks'' ''P1'' ''Water'' 6 0 0 0 6"
  let ?B2 = "item ''Drinks'' ''P1'' ''Water 2'' 6 0 0 0 6"
  have ps: "products (day_of 1 True [?A1, ?B1]) = [] @ ?A1 # [] @ ?B1 # []"
    by (simp add: day_of_def)
  have c: "code ?B1 = code ?A1" "code ?A1 \<notin> code ` set []" "code ?A2 = code ?A1"
    by (simp_all add: item_def)
  have np: "code ?A1 \<noteq> ascii ''__proto__''"
    by (simp add: item_def ascii_def)
  have m: "day_of 1 True [?A1, ?B1] \<in> set [day_of 1 True [?A1, ?B1], day_of 2 True [?A2, ?B2]]"
          "day_of 2 True [?A2, ?B2] \<in> set (all_days twin_sheet)"
    by (simp_all add: all_days_twin_sheet)
  note t = repeated_code_chain [OF processData_twin_sheet m(1) ps c(1) c(2)]
  have t1: "truthy (remain ?A1) \<and> remain ?A1 \<noteq> NaN \<and> remain ?B1 \<noteq> NaN"
    by (simp add: item_def truthy_def)
  have same: "broughtForward ?B1 = Num (remain ?A1)"
    using t t1 np by simp
  have p2: "products (day_of 2 True [?A2, ?B2]) = [] @ ?A2 # [?B2]"
       "dayNum (day_of 2 True [?A2, ?B2]) = Suc (dayNum (day_of 1 True [?A1, ?B1]))"
    by (simp_all add: day_of_def)
  have "broughtForward ?A2 = Num (if remain ?B1 = NaN then Fin 0 else remain ?B1)"
    using t m(2) p2 c np by blast
  then have nextd: "broughtForward ?A2 = Num (remain ?B1)"
    using t1 by simp
  let ?S1 = "item ''Drinks'' ''P1'' ''Water'' 0 3 3 0 0"
  let ?S2 = "item ''Drinks'' ''P1'' ''Water 2'' 7 0 0 0 7"
  have sps: "products (day_of 1 True [?S1, ?S2]) = [] @ ?S1 # [] @ ?S2 # []"
    by (simp add: day_of_def)
  have sc: "code ?S2 = code ?S1" "code ?S1 \<notin> code ` set []"
    by (simp_all add: item_def)
  have sm: "day_of 1 True [?S1, ?S2] \<in> set [day_of 1 True [?S1, ?S2]]"
    by simp
  have snp: "code ?S1 \<noteq> ascii ''__proto__'' \<and> dayNum (day_of 1 True [?S1, ?S2]) = 1
      \<and> \<not> truthy (remain ?S1)"
    by (simp add: item_def ascii_def day_of_def truthy_def)
  have seed: "broughtForward ?S2 = Num (Fin 7)"
    using repeated_code_chain [OF processData_twin_seed_sheet sm sps sc(1) sc(2),
        THEN conjunct2, THEN conjunct1] snp
    by (simp add: twin_seed_valid_rows twin_seed_sheet_bf[unfolded One_nat_def] js_gt_def Let_def)
  let ?P1 = "item_of ''Drinks'' ''__proto__'' ''Water'' ProtoMember (Fin 5) (Fin 0) (Fin 0) NaN"
  let ?P2 = "item_of ''Drinks'' ''__proto__'' ''Water 2'' ProtoMember (Fin 2) (Fin 0) (Fin 0) NaN"
  let ?P3 = "item_of ''Drinks'' ''__proto__'' ''Water'' ProtoMember (Fin 1) (Fin 0) (Fin 0) NaN"
  let ?P4 = "item_of ''Drinks'' ''__proto__'' ''Water 2'' ProtoMember (Fin 0) (Fin 0) (Fin 0) NaN"
  have pps: "products (day_of 1 True [?P1, ?P2]) = [] @ ?P1 # [] @ ?P2 # []"
    by (simp add: day_of_def)
  have pc: "code ?P2 = code ?P1" "code ?P1 \<notin> code ` set []" "code ?P1 = ascii ''__proto__''"
    by (simp_all add: item_of_def)
  have pm: "day_of 1 True [?P1, ?P2] \<in> set [day_of 1 True [?P1, ?P2], day_of 2 True [?P3, ?P4]]"
    by simp
  have proto: "broughtForward ?P2 = ProtoMember"
    using repeated_code_chain [OF processData_proto_twin_sheet pm pps pc(1) pc(2),
        THEN conjunct2, THEN conjunct2, THEN conjunct1] pc(3)
    by simp
  show ?thesis
    using processData_twin_sheet processData_twin_seed_sheet processData_proto_twin_sheet
      same nextd seed proto twin_seed_sheet_bf
    by simp
qed

text \<open>
  C10 as stated holds on every day, for every remain and for every code. On day 1, when the
  earlier row's remain is 0 and the later row states an opening balance of 7, the later
  row's brought-forward is 7. On day 2, when the earlier row's remain is \<open>NaN\<close> (it receives
  and sells \<^verbatim>\<open>Infinity\<close>), the later row's brought-forward is 0. With the code
  \<^verbatim>\<open>__proto__\<close> the later row's brought-forward is the inherited member, not the remain
  of the earlier row.
\<close>

theorem repeated_code_seed_counterexample:
  "processData twin_seed_sheet =
     Some [day_of 1 True [item ''Drinks'' ''P1'' ''Water'' 0 3 3 0 0,
                          item ''Drinks'' ''P1'' ''Water 2'' 7 0 0 0 7]]
   \<and> code (item ''Drinks'' ''P1'' ''Water 2'' 7 0 0 0 7) = code (item ''Drinks'' ''P1'' ''Water'' 0 3 3 0 0)
   \<and> remain (item ''Drinks'' ''P1'' ''Water'' 0 3 3 0 0) = Fin 0
   \<and> broughtForward (item ''Drinks'' ''P1'' ''Water 2'' 7 0 0 0 7) = Num (Fin 7)
   \<and> processData infinite_sheet =
       Some [day_of 1 True [item ''Drinks'' ''P1'' ''Water'' 0 2 0 0 2,
                            item ''Drinks'' ''P1'' ''Water 2'' 2 0 0 0 2],
             day_of 2 True
               [item_of ''Drinks'' ''P1'' ''Water'' (Num (Fin 2)) PInf PInf (Fin 0) NaN,
                item ''Drinks'' ''P1'' ''Water 2'' 0 0 0 0 0]]
   \<and> code (item ''Drinks'' ''P1'' ''Water 2'' 0 0 0 0 0) = ascii ''P1''
   \<and> broughtForward (item ''Drinks'' ''P1'' ''Water 2'' 0 0 0 0 0) \<noteq> Num NaN
   \<and> processData proto_twin_sheet =
     Some [day_of 1 True
             [item_of ''Drinks'' ''__proto__'' ''Water'' ProtoMember (Fin 5) (Fin 0) (Fin 0) NaN,
              item_of ''Drinks'' ''__proto__'' ''Water 2'' ProtoMember (Fin 2) (Fin 0) (Fin 0) NaN],
           day_of 2 True
             [item_of ''Drinks'' ''__proto__'' ''Water'' ProtoMember (Fin 1) (Fin 0) (Fin 0) NaN,
              item_of ''Drinks'' ''__proto__'' ''Water 2'' ProtoMember (Fin 0) (Fin 0) (Fin 0) NaN]]
   \<and> broughtForward
        (item_of ''Drinks'' ''__proto__'' ''Water 2'' ProtoMember (Fin 2) (Fin 0) (Fin 0) NaN)
       \<noteq> Num (remain
             (item_of ''Drinks'' ''__proto__'' ''Water'' ProtoMember (Fin 5) (Fin 0) (Fin 0) NaN))"
  using processData_twin_seed_sheet processData_infinite_sheet processData_proto_twin_sheet
  by (simp add: item_def item_of_def)

section \<open>Aggregation of a day block by role\<close>

















end
